theory Spec2Isabelle
  imports Complex_Main
begin

section \<open>Python strings\<close>

text \<open>
  A Python \<open>str\<close> is modelled as a \<open>string\<close>, a list of 8-bit characters: one \<open>char\<close>
  is one code point from 0 to 255 and offsets count characters. The character classes
  below are those of \<open>str.isspace\<close>, \<open>str.isalpha\<close>, \<open>str.isalnum\<close> and \<open>str.lower\<close> on
  these code points (Unicode agrees with Latin-1 there).
\<close>

text \<open>
  The code points with a lowercase mapping: \<open>A\<close> to \<open>Z\<close>, and the Latin-1 capitals 192 to
  214 and 216 to 222.
\<close>

definition is_upper :: "char \<Rightarrow> bool" where
  "is_upper c =
     (let n = (of_char c :: nat)
      in (65 \<le> n \<and> n \<le> 90) \<or> (192 \<le> n \<and> n \<le> 214) \<or> (216 \<le> n \<and> n \<le> 222))"

text \<open>The class \<open>[a-z]\<close> of a regular expression.\<close>

definition is_lower :: "char \<Rightarrow> bool" where
  "is_lower c = (97 \<le> (of_char c :: nat) \<and> (of_char c :: nat) \<le> 122)"

text \<open>The class \<open>[a-zA-Z]\<close> of a regular expression.\<close>

definition ascii_letter :: "char \<Rightarrow> bool" where
  "ascii_letter c =
     (let n = (of_char c :: nat) in (65 \<le> n \<and> n \<le> 90) \<or> (97 \<le> n \<and> n \<le> 122))"

text \<open>
  \<open>c.isalpha()\<close>: the ASCII letters, the ordinal indicators 170 and 186, the micro sign
  181, and the Latin-1 letters 192 to 255 without the signs 215 and 247.
\<close>

definition isalpha :: "char \<Rightarrow> bool" where
  "isalpha c =
     (let n = (of_char c :: nat)
      in (65 \<le> n \<and> n \<le> 90) \<or> (97 \<le> n \<and> n \<le> 122) \<or> n = 170 \<or> n = 181 \<or> n = 186
         \<or> (192 \<le> n \<and> n \<le> 214) \<or> (216 \<le> n \<and> n \<le> 246) \<or> 248 \<le> n)"

text \<open>
  \<open>c.isalnum()\<close>: a letter, a digit \<open>0\<close> to \<open>9\<close>, a superscript digit (178, 179, 185) or
  a vulgar fraction (188 to 190).
\<close>

definition isalnum_char :: "char \<Rightarrow> bool" where
  "isalnum_char c =
     (let n = (of_char c :: nat)
      in isalpha c \<or> (48 \<le> n \<and> n \<le> 57) \<or> n = 178 \<or> n = 179 \<or> n = 185
         \<or> (188 \<le> n \<and> n \<le> 190))"

text \<open>\<open>s.isalnum()\<close>: every character is alphanumeric and there is at least one.\<close>

definition isalnum :: "string \<Rightarrow> bool" where
  "isalnum s = (s \<noteq> [] \<and> list_all isalnum_char s)"

text \<open>\<open>s.lower()\<close>: a capital moves up by 32, every other character stays.\<close>

definition lower_char :: "char \<Rightarrow> char" where
  "lower_char c = (if is_upper c then char_of ((of_char c :: nat) + 32) else c)"

definition lower :: "string \<Rightarrow> string" where
  "lower s = map lower_char s"

text \<open>\<open>s.endswith(t)\<close>.\<close>

definition endswith :: "string \<Rightarrow> string \<Rightarrow> bool" where
  "endswith s t = (length t \<le> length s \<and> drop (length s - length t) s = t)"

text \<open>
  \<open>c.isspace()\<close>: tab, line feed, vertical tab, form feed, carriage return, the four
  separators 28 to 31, the space, the next-line control 133 and the no-break space 160.
\<close>

definition isspace :: "char \<Rightarrow> bool" where
  "isspace c =
     (let n = (of_char c :: nat)
      in (9 \<le> n \<and> n \<le> 13) \<or> (28 \<le> n \<and> n \<le> 32) \<or> n = 133 \<or> n = 160)"

text \<open>\<open>s.strip()\<close>.\<close>

definition strip :: "string \<Rightarrow> string" where
  "strip s = rev (dropWhile isspace (rev (dropWhile isspace s)))"

text \<open>\<open>s.split()\<close>: the maximal runs of non-whitespace characters; \<open>w\<close> is the run being read, reversed.\<close>

fun split_loop :: "string \<Rightarrow> string \<Rightarrow> string list" where
  "split_loop [] w = (if w = [] then [] else [rev w])"
| "split_loop (c # cs) w =
     (if isspace c then (if w = [] then split_loop cs [] else rev w # split_loop cs [])
      else split_loop cs (c # w))"

definition py_split :: "string \<Rightarrow> string list" where
  "py_split s = split_loop s []"

text \<open>\<open>sep.join(xs)\<close>.\<close>

fun str_join :: "string \<Rightarrow> string list \<Rightarrow> string" where
  "str_join sep [] = []"
| "str_join sep [x] = x"
| "str_join sep (x # y # ys) = x @ sep @ str_join sep (y # ys)"

section \<open>Exceptions and floats\<close>

text \<open>
  A raised exception is a value: its class name and its message \<open>str(e)\<close>. A function
  that can raise returns \<open>exn + 'a\<close>, with \<open>Inl\<close> for the exception that escapes it.
\<close>

datatype exn = Raised (exn_class: string) (exn_str: string)

definition and_then :: "exn + 'a \<Rightarrow> ('a \<Rightarrow> exn + 'b) \<Rightarrow> exn + 'b" where
  "and_then r f = (case r of Inl e \<Rightarrow> Inl e | Inr v \<Rightarrow> f v)"

text \<open>
  Python floats are IEEE doubles. Their arithmetic is not the arithmetic of the
  rationals (sums are rounded, \<open>round\<close> sees the rounded value), so the float type
  \<open>'f\<close> and its operations are parameters of the model: the conversion of an integer,
  the value of a decimal literal, the four operations and \<open>round(x, ndigits)\<close>. Floats
  are compared with the linear order of \<open>'f\<close> (no NaN arises in the code modelled).
\<close>

record 'f float_ops =
  f_int :: "int \<Rightarrow> 'f"
  f_lit :: "rat \<Rightarrow> 'f"
  f_add :: "'f \<Rightarrow> 'f \<Rightarrow> 'f"
  f_sub :: "'f \<Rightarrow> 'f \<Rightarrow> 'f"
  f_mul :: "'f \<Rightarrow> 'f \<Rightarrow> 'f"
  f_div :: "'f \<Rightarrow> 'f \<Rightarrow> 'f"
  f_round :: "'f \<Rightarrow> nat \<Rightarrow> 'f"

text \<open>\<open>a / b\<close> on two integers: true division, which raises on a zero divisor.\<close>

definition truediv :: "'f float_ops \<Rightarrow> int \<Rightarrow> int \<Rightarrow> exn + 'f" where
  "truediv ops a b =
     (if b = 0 then Inl (Raised ''ZeroDivisionError'' ''division by zero'')
      else Inr (f_div ops (f_int ops a) (f_int ops b)))"

text \<open>\<open>x / n\<close> for a float (or the integer 0 that \<open>sum\<close> starts from) and an integer.\<close>

definition fdiv_int :: "'f float_ops \<Rightarrow> 'f \<Rightarrow> int \<Rightarrow> exn + 'f" where
  "fdiv_int ops x b =
     (if b = 0 then Inl (Raised ''ZeroDivisionError'' ''division by zero'')
      else Inr (f_div ops x (f_int ops b)))"

text \<open>\<open>sum(xs)\<close>: starts from the integer 0 and adds from the left.\<close>

definition py_sum :: "'f float_ops \<Rightarrow> 'f list \<Rightarrow> 'f" where
  "py_sum ops xs = foldl (f_add ops) (f_int ops 0) xs"

text \<open>
  Exact rational arithmetic, with \<open>round\<close> rounding half to even: one instance of the
  float operations, used to evaluate the model on concrete inputs.
\<close>

definition round_half_even :: "rat \<Rightarrow> nat \<Rightarrow> rat" where
  "round_half_even x n =
     (let s = x * 10 ^ n; f = \<lfloor>s\<rfloor>; r = s - of_int f
      in of_int (if r < 1 / 2 then f else if 1 / 2 < r then f + 1
                 else if even f then f else f + 1) / 10 ^ n)"

definition exact_ops :: "rat float_ops" where
  "exact_ops = \<lparr>f_int = of_int, f_lit = (\<lambda>q. q), f_add = (+), f_sub = (-), f_mul = (*),
                 f_div = (/), f_round = round_half_even\<rparr>"

section \<open>The syllable estimator\<close>

text \<open>
  \<open>DocumentAnalyzer._count_syllables\<close>. The regular expression \<open>[^a-zA-Z]\<close> removes
  every character that is not an ASCII letter from the lowercased word; the loop keeps \<open>prev_is_vowel\<close> and
  \<open>count\<close> as its state. \<open>count\<close> is a Python integer.
\<close>

definition vowels :: string where
  "vowels = ''aeiouy''"

definition special_words :: "string list" where
  "special_words = [''the'', ''me'', ''she'', ''he'', ''be'', ''we'']"

fun vowel_loop :: "string \<Rightarrow> bool \<Rightarrow> int \<Rightarrow> int" where
  "vowel_loop [] prev_is_vowel count = count"
| "vowel_loop (char # rest) prev_is_vowel count =
     (let is_vowel = (char \<in> set vowels)
      in vowel_loop rest is_vowel (if is_vowel \<and> \<not> prev_is_vowel then count + 1 else count))"

definition count_syllables :: "string \<Rightarrow> int" where
  "count_syllables w =
     (let word = filter ascii_letter (lower w) in
      if word = [] then 0
      else if word \<in> set special_words then 1
      else
        let count = vowel_loop word False 0;
            count = (if endswith word ''e'' then count - 1 else count);
            count = (if endswith word ''le'' \<and> length word > 2
                        \<and> word ! (length word - 3) \<notin> set vowels
                     then count + 1 else count)
        in max count 1)"

text \<open>
  The estimator in the specification's words: the number of positions at which a vowel
  group begins (a vowel that is the first character or follows a non-vowel).
\<close>

definition vowel_group_starts :: "string \<Rightarrow> nat" where
  "vowel_group_starts w =
     length (filter (\<lambda>i. w ! i \<in> set vowels \<and> (i = 0 \<or> w ! (i - 1) \<notin> set vowels))
               [0..<length w])"

definition lowercase_word :: "string \<Rightarrow> bool" where
  "lowercase_word w = (w \<noteq> [] \<and> list_all is_lower w)"

text \<open>The same count with the loop's initial \<open>prev_is_vowel\<close> flag made explicit.\<close>

definition starts_from :: "bool \<Rightarrow> string \<Rightarrow> nat" where
  "starts_from p w =
     length (filter (\<lambda>i. w ! i \<in> set vowels \<and>
                          (if i = 0 then \<not> p else w ! (i - 1) \<notin> set vowels))
               [0..<length w])"

section \<open>The math tagger\<close>

text \<open>
  \<open>symbol_utils.extract_math_expressions\<close>. Each of the three regular expressions has
  the shape \<open>open .*? close\<close> with two literal delimiters and is searched with
  \<open>re.DOTALL\<close>, so \<open>.\<close> matches every character, newlines included.
  \<open>re.finditer\<close> tries the start positions from left to right; at a start position
  where the opening delimiter stands, the lazy \<open>.*?\<close> stops at the first closing
  delimiter behind it, and the search goes on behind the match.
\<close>

text \<open>\<open>s.find(pat)\<close>: the least offset at which \<open>pat\<close> stands in \<open>s\<close>.\<close>

fun find_sub :: "string \<Rightarrow> string \<Rightarrow> nat option" where
  "find_sub pat [] = (if pat = [] then Some 0 else None)"
| "find_sub pat (c # cs) =
     (if take (length pat) (c # cs) = pat then Some 0
      else map_option Suc (find_sub pat cs))"

text \<open>
  The matches of \<open>open .*? close\<close> in the suffix \<open>s\<close> that begins at offset \<open>k\<close> of
  the text, as (start, end) pairs.
\<close>

fun finditer_from :: "string \<Rightarrow> string \<Rightarrow> nat \<Rightarrow> string \<Rightarrow> (nat \<times> nat) list" where
  "finditer_from opn cls k [] = []"
| "finditer_from opn cls k (c # cs) =
     (if take (length opn) (c # cs) = opn then
        (case find_sub cls (drop (length opn) (c # cs)) of
           None \<Rightarrow> finditer_from opn cls (Suc k) cs
         | Some j \<Rightarrow>
             let n = length opn + j + length cls
             in (k, k + n) # finditer_from opn cls (k + n) (drop (n - 1) cs))
      else finditer_from opn cls (Suc k) cs)"

record math_sample =
  ms_content :: string
  ms_start :: nat
  ms_end :: nat

text \<open>The patterns \<open>\$.*?\$\<close>, \<open>\\\(.*?\\\)\<close> and \<open>\\\[.*?\\\]\<close> by their delimiters.\<close>

definition math_patterns :: "(string \<times> string) list" where
  "math_patterns =
     [(''$'', ''$''),
      ([CHR 0x5C, CHR ''(''], [CHR 0x5C, CHR '')'']),
      ([CHR 0x5C, CHR ''[''], [CHR 0x5C, CHR '']''])]"

text \<open>\<open>m.group(0)\<close>, \<open>m.start()\<close> and \<open>m.end()\<close> of every match of one pattern.\<close>

definition pattern_samples :: "string \<Rightarrow> string \<times> string \<Rightarrow> math_sample list" where
  "pattern_samples text pat =
     map (\<lambda>(s, e). \<lparr>ms_content = take (e - s) (drop s text), ms_start = s, ms_end = e\<rparr>)
       (finditer_from (fst pat) (snd pat) 0 text)"

definition extract_math_expressions :: "string \<Rightarrow> math_sample list" where
  "extract_math_expressions text = concat (map (pattern_samples text) math_patterns)"

text \<open>A text on which two patterns overlap: \<open>$\(a\)$\<close>.\<close>

definition overlap_text :: string where
  "overlap_text = [CHR ''$'', CHR 0x5C, CHR ''('', CHR ''a'', CHR 0x5C, CHR '')'', CHR ''$'']"

subsection \<open>The matches of a pattern, stated without the scanner\<close>

text \<open>The string \<open>pat\<close> stands at offset \<open>i\<close> of \<open>s\<close>.\<close>

definition occurs_at :: "string \<Rightarrow> string \<Rightarrow> nat \<Rightarrow> bool" where
  "occurs_at pat s i = (i + length pat \<le> length s \<and> take (length pat) (drop i s) = pat)"

text \<open>
  \<open>open .*? close\<close> matches the text from \<open>a\<close> to \<open>b\<close>: the opening delimiter stands at
  \<open>a\<close>, the closing delimiter ends at \<open>b\<close> behind it, and (the match is lazy) the closing
  delimiter stands nowhere between the two.
\<close>

definition lazy_match :: "string \<Rightarrow> string \<Rightarrow> string \<Rightarrow> nat \<Rightarrow> nat \<Rightarrow> bool" where
  "lazy_match opn cls s a b =
     (occurs_at opn s a \<and> a + length opn + length cls \<le> b
      \<and> occurs_at cls s (b - length cls)
      \<and> list_all (\<lambda>j. \<not> occurs_at cls s j) [a + length opn ..< b - length cls])"

text \<open>No match of the pattern starts at an offset from \<open>lo\<close> up to, and without, \<open>hi\<close>.\<close>

definition no_match_between :: "string \<Rightarrow> string \<Rightarrow> string \<Rightarrow> nat \<Rightarrow> nat \<Rightarrow> bool" where
  "no_match_between opn cls s lo hi =
     list_all (\<lambda>a. list_all (\<lambda>b. \<not> lazy_match opn cls s a b) [a ..< Suc (length s)])
       [lo ..< hi]"

text \<open>
  The matches \<open>re.finditer\<close> yields from offset \<open>pos\<close> on, as (start, end) pairs: each is
  the leftmost match that starts at or behind the end of the one before it (at or behind
  \<open>pos\<close> for the first), and no match starts at or behind the end of the last one.
\<close>

fun all_matches_from ::
  "string \<Rightarrow> string \<Rightarrow> string \<Rightarrow> nat \<Rightarrow> (nat \<times> nat) list \<Rightarrow> bool" where
  "all_matches_from opn cls s pos [] = no_match_between opn cls s pos (Suc (length s))"
| "all_matches_from opn cls s pos ((a, b) # rest) =
     (pos \<le> a \<and> lazy_match opn cls s a b \<and> no_match_between opn cls s pos a
      \<and> all_matches_from opn cls s b rest)"

text \<open>The offsets of a sample.\<close>

definition span :: "math_sample \<Rightarrow> nat \<times> nat" where
  "span m = (ms_start m, ms_end m)"

text \<open>A text with two matches of one pattern: \<open>$a$ and $b$\<close>.\<close>

definition two_text :: string where
  "two_text = ''$a$ and $b$''"

section \<open>The document analyzer\<close>

text \<open>
  \<open>DocumentAnalyzer\<close> calls libraries whose code is not part of the repository: the
  NLTK tokenizers, stop word list and lemmatizer, scikit-learn's \<open>TfidfVectorizer\<close>,
  spaCy's entity recognizer and the three transformers pipelines. They are the fields
  of the analyzer below. A library call that can raise returns \<open>exn + _\<close>; a pipeline
  whose construction can raise is itself of type \<open>exn + _\<close>.
  \<^item> \<open>set_order\<close> is the order in which Python iterates over \<open>set(tokens)\<close>; it is
    read through \<open>set_iter\<close> below, which keeps it only when it lists every token once.
  \<^item> \<open>tfidf_fit\<close> is \<open>fit_transform\<close> followed by \<open>get_feature_names_out\<close>: the
    feature names and the entry of the matrix at a row (sentence) and a column (feature).
  \<^item> \<open>spacy_ents\<close> gives \<open>(ent.label_, ent.text)\<close> for the entities of \<open>doc.ents\<close>.
  \<^item> \<open>classifier\<close> gives \<open>(result['labels'], result['scores'])\<close>.
  \<^item> \<open>sentiment_pipeline\<close> gives \<open>(r['label'], r['score'])\<close> of the first result.
\<close>

record 'f analyzer =
  word_tokenize :: "string \<Rightarrow> string list"
  sent_tokenize :: "string \<Rightarrow> string list"
  stop_words :: "string list"
  lemmatize :: "string \<Rightarrow> string"
  set_order :: "string list \<Rightarrow> string list"
  tfidf_fit :: "string list \<Rightarrow> exn + string list \<times> (nat \<Rightarrow> nat \<Rightarrow> 'f)"
  spacy_ents :: "string \<Rightarrow> exn + (string \<times> string) list"
  summarizer :: "exn + (string \<Rightarrow> nat \<Rightarrow> nat \<Rightarrow> exn + string)"
  classifier :: "exn + (string \<Rightarrow> string list \<Rightarrow> exn + string list \<times> 'f list)"
  sentiment_pipeline :: "exn + (string \<Rightarrow> exn + string \<times> 'f)"
  fops :: "'f float_ops"

subsection \<open>Dictionaries and sorting\<close>

text \<open>
  A Python \<open>dict\<close> whose iteration order matters is an association list in insertion
  order with distinct keys. \<open>dict_add\<close> is
  \<open>if k in d: d[k] += v else: d[k] = v\<close>.
\<close>

fun dict_add :: "'f float_ops \<Rightarrow> ('k \<times> 'f) list \<Rightarrow> 'k \<Rightarrow> 'f \<Rightarrow> ('k \<times> 'f) list" where
  "dict_add ops [] k v = [(k, v)]"
| "dict_add ops ((k', v') # d) k v =
     (if k' = k then (k', f_add ops v' v) # d else (k', v') # dict_add ops d k v)"

text \<open>\<open>if k in d: d[k] += 1 else: d[k] = 1\<close>.\<close>

fun dict_count :: "('k \<times> int) list \<Rightarrow> 'k \<Rightarrow> ('k \<times> int) list" where
  "dict_count [] k = [(k, 1)]"
| "dict_count ((k', n) # d) k =
     (if k' = k then (k', n + 1) # d else (k', n) # dict_count d k)"

text \<open>
  \<open>sorted(xs, key=key, reverse=True)\<close>: CPython reverses the list, sorts it stably in
  ascending order and reverses it again, so equal keys keep their original order.
\<close>

definition py_sorted_reverse :: "('a \<Rightarrow> 'k::linorder) \<Rightarrow> 'a list \<Rightarrow> 'a list" where
  "py_sorted_reverse key xs = rev (sort_key key (rev xs))"

text \<open>\<open>xs.index(x)\<close> for an \<open>x\<close> that is in \<open>xs\<close>.\<close>

definition index_of :: "'a list \<Rightarrow> 'a \<Rightarrow> nat" where
  "index_of xs x = length (takeWhile (\<lambda>y. y \<noteq> x) xs)"

subsection \<open>Keywords\<close>

text \<open>
  \<open>for token in set(tokens)\<close>: every distinct token once, in the order of the
  analyzer when that is such an order, and in the order of first occurrence otherwise.
\<close>

definition set_iter :: "'f analyzer \<Rightarrow> string list \<Rightarrow> string list" where
  "set_iter env tokens =
     (let ordered = set_order env tokens
      in if distinct ordered \<and> set ordered = set tokens then ordered else remdups tokens)"

text \<open>
  \<open>extract_keywords\<close>. The inner loop runs over the distinct tokens of one sentence
  (row \<open>i\<close> of the matrix), the outer loop over the sentences with their indices.
\<close>

definition keyword_tokens :: "'f analyzer \<Rightarrow> string \<Rightarrow> string list" where
  "keyword_tokens env text =
     (let tokens = word_tokenize env (lower text);
          tokens = filter isalnum tokens;
          tokens = filter (\<lambda>token. token \<notin> set (stop_words env)) tokens
      in map (lemmatize env) tokens)"

fun token_loop ::
  "'f analyzer \<Rightarrow> string list \<Rightarrow> (nat \<Rightarrow> nat \<Rightarrow> 'f) \<Rightarrow> nat \<Rightarrow> string list
     \<Rightarrow> (string \<times> 'f) list \<Rightarrow> (string \<times> 'f) list" where
  "token_loop env feature_names tfidf_matrix i [] tfidf_scores = tfidf_scores"
| "token_loop env feature_names tfidf_matrix i (token # rest) tfidf_scores =
     (if token \<in> set (stop_words env)
      then token_loop env feature_names tfidf_matrix i rest tfidf_scores
      else
        let lemma = lemmatize env token in
        if lemma \<in> set feature_names then
          let idx = index_of feature_names lemma;
              score = tfidf_matrix i idx
          in token_loop env feature_names tfidf_matrix i rest
               (dict_add (fops env) tfidf_scores lemma score)
        else token_loop env feature_names tfidf_matrix i rest tfidf_scores)"

fun sentence_loop ::
  "'f analyzer \<Rightarrow> string list \<Rightarrow> (nat \<Rightarrow> nat \<Rightarrow> 'f) \<Rightarrow> nat \<Rightarrow> string list
     \<Rightarrow> (string \<times> 'f) list \<Rightarrow> (string \<times> 'f) list" where
  "sentence_loop env feature_names tfidf_matrix i [] tfidf_scores = tfidf_scores"
| "sentence_loop env feature_names tfidf_matrix i (sentence # rest) tfidf_scores =
     (let sentence_tokens = word_tokenize env (lower sentence);
          sentence_tokens = filter isalnum sentence_tokens
      in sentence_loop env feature_names tfidf_matrix (Suc i) rest
           (token_loop env feature_names tfidf_matrix i (set_iter env sentence_tokens)
              tfidf_scores))"

text \<open>
  \<open>tfidf_scores[term] = tfidf_scores[term] * freq_dist[term]\<close> for the terms that
  \<open>freq_dist\<close> counts; \<open>freq_dist[term]\<close> is the number of occurrences among the tokens.
\<close>

definition normalize_by_frequency ::
  "'f float_ops \<Rightarrow> string list \<Rightarrow> (string \<times> 'f) list \<Rightarrow> (string \<times> 'f) list" where
  "normalize_by_frequency ops tokens tfidf_scores =
     map (\<lambda>(term, score).
            if term \<in> set tokens
            then (term, f_mul ops score (f_int ops (int (count_list tokens term))))
            else (term, score))
         tfidf_scores"

definition extract_keywords :: "('f::linorder) analyzer \<Rightarrow> string \<Rightarrow> nat \<Rightarrow> exn + (string \<times> 'f) list" where
  "extract_keywords env text top_n =
     (let tokens = keyword_tokens env text;
          sentences = sent_tokenize env text
      in and_then (tfidf_fit env sentences) (\<lambda>(feature_names, tfidf_matrix).
           let tfidf_scores = sentence_loop env feature_names tfidf_matrix 0 sentences [];
               tfidf_scores = normalize_by_frequency (fops env) tokens tfidf_scores;
               sorted_keywords = py_sorted_reverse snd tfidf_scores
           in Inr (take top_n sorted_keywords)))"

subsection \<open>Entities\<close>

fun entity_add :: "(string \<times> string list) list \<Rightarrow> string \<Rightarrow> string \<Rightarrow> (string \<times> string list) list" where
  "entity_add [] label txt = [(label, [txt])]"
| "entity_add ((l, xs) # d) label txt =
     (if l = label then (l, if txt \<in> set xs then xs else xs @ [txt]) # d
      else (l, xs) # entity_add d label txt)"

definition extract_entities :: "'f analyzer \<Rightarrow> string \<Rightarrow> exn + (string \<times> string list) list" where
  "extract_entities env text =
     and_then (spacy_ents env text)
       (\<lambda>ents. Inr (foldl (\<lambda>entities (label, txt). entity_add entities label txt) [] ents))"

text \<open>
  The keyword scores in the specification's words. An event is one addition to
  \<open>tfidf_scores\<close>: for a sentence (row \<open>i\<close>) and one of its distinct alphanumeric tokens
  that is no stop word and whose lemma is a feature name, the lemma with the matrix
  entry of the lemma's own column in row \<open>i\<close>. The weight of a lemma is the sum of its
  events, added from the left; its score is the weight times the number of its
  occurrences among the lemmatized tokens of the text.
\<close>

definition sentence_events ::
  "'f analyzer \<Rightarrow> string list \<Rightarrow> (nat \<Rightarrow> nat \<Rightarrow> 'f) \<Rightarrow> nat \<Rightarrow> string \<Rightarrow> (string \<times> 'f) list" where
  "sentence_events env feature_names tfidf_matrix i sentence =
     List.map_filter
       (\<lambda>token. if token \<notin> set (stop_words env) \<and> lemmatize env token \<in> set feature_names
                then Some (lemmatize env token,
                           tfidf_matrix i (index_of feature_names (lemmatize env token)))
                else None)
       (set_iter env (filter isalnum (word_tokenize env (lower sentence))))"

definition keyword_events ::
  "'f analyzer \<Rightarrow> string list \<Rightarrow> (nat \<Rightarrow> nat \<Rightarrow> 'f) \<Rightarrow> string list \<Rightarrow> (string \<times> 'f) list" where
  "keyword_events env feature_names tfidf_matrix sentences =
     concat (map (\<lambda>(i, sentence). sentence_events env feature_names tfidf_matrix i sentence)
               (enumerate 0 sentences))"

definition lemma_weight :: "'f float_ops \<Rightarrow> (string \<times> 'f) list \<Rightarrow> string \<Rightarrow> 'f" where
  "lemma_weight ops events lemma =
     (case map snd (filter (\<lambda>e. fst e = lemma) events) of
        [] \<Rightarrow> f_int ops 0
      | v # vs \<Rightarrow> foldl (f_add ops) v vs)"

definition keyword_score ::
  "'f float_ops \<Rightarrow> (string \<times> 'f) list \<Rightarrow> string list \<Rightarrow> string \<Rightarrow> 'f" where
  "keyword_score ops events tokens lemma =
     (if lemma \<in> set tokens
      then f_mul ops (lemma_weight ops events lemma) (f_int ops (int (count_list tokens lemma)))
      else lemma_weight ops events lemma)"

text \<open>
  The score as the claim words it: one TF-IDF weight for every sentence that contains
  the lemma (as the lemma of one of its tokens), summed and multiplied by the count.
\<close>

definition claimed_keyword_score ::
  "'f analyzer \<Rightarrow> string list \<Rightarrow> (nat \<Rightarrow> nat \<Rightarrow> 'f) \<Rightarrow> string list \<Rightarrow> string list \<Rightarrow> string \<Rightarrow> 'f" where
  "claimed_keyword_score env feature_names tfidf_matrix sentences tokens lemma =
     f_mul (fops env)
       (py_sum (fops env)
          (map (\<lambda>(i, sentence). tfidf_matrix i (index_of feature_names lemma))
             (filter (\<lambda>(i, sentence).
                        lemma \<in> lemmatize env `
                          set (filter (\<lambda>token. token \<notin> set (stop_words env))
                                 (filter isalnum (word_tokenize env (lower sentence)))))
                (enumerate 0 sentences))))
       (f_int (fops env) (int (count_list tokens lemma)))"

subsection \<open>Summary\<close>

text \<open>
  \<open>_extractive_summarize\<close>. \<open>word_frequencies\<close> first counts the words that are no
  stop words and alphanumeric, over all sentences; the counts are then divided by the
  largest count (at least 1, so the division cannot raise).
\<close>

definition count_words :: "'f analyzer \<Rightarrow> string list \<Rightarrow> (string \<times> int) list" where
  "count_words env sentences =
     foldl (\<lambda>word_frequencies sentence.
              foldl (\<lambda>wf word.
                       if word \<notin> set (stop_words env) \<and> isalnum word
                       then dict_count wf word else wf)
                    word_frequencies (word_tokenize env (lower sentence)))
           [] sentences"

definition max_frequency :: "(string \<times> int) list \<Rightarrow> int" where
  "max_frequency word_frequencies =
     (case word_frequencies of [] \<Rightarrow> 1 | (w, n) # rest \<Rightarrow> foldl max n (map snd rest))"

definition normalize_frequencies ::
  "'f float_ops \<Rightarrow> (string \<times> int) list \<Rightarrow> (string \<times> 'f) list" where
  "normalize_frequencies ops word_frequencies =
     map (\<lambda>(word, n). (word, f_div ops (f_int ops n) (f_int ops (max_frequency word_frequencies))))
         word_frequencies"

text \<open>
  The scoring loop: a sentence gets an entry in \<open>sentence_scores\<close> with the first of
  its words that has a frequency, and every further such word is added to it.
\<close>

definition score_sentences ::
  "'f analyzer \<Rightarrow> (string \<times> 'f) list \<Rightarrow> string list \<Rightarrow> (nat \<times> 'f) list" where
  "score_sentences env word_frequencies sentences =
     foldl (\<lambda>sentence_scores (i, sentence).
              foldl (\<lambda>scores word.
                       case map_of word_frequencies word of
                         None \<Rightarrow> scores
                       | Some v \<Rightarrow> dict_add (fops env) scores i v)
                    sentence_scores (word_tokenize env (lower sentence)))
           [] (enumerate 0 sentences)"

definition top_sentence_indices :: "('f::linorder) analyzer \<Rightarrow> string list \<Rightarrow> nat \<Rightarrow> nat list" where
  "top_sentence_indices env sentences sentences_count =
     (let word_frequencies = normalize_frequencies (fops env) (count_words env sentences);
          sentence_scores = score_sentences env word_frequencies sentences;
          ranked_sentences = py_sorted_reverse snd sentence_scores
      in sort (map fst (take sentences_count ranked_sentences)))"

definition extractive_summarize :: "('f::linorder) analyzer \<Rightarrow> string \<Rightarrow> nat \<Rightarrow> string" where
  "extractive_summarize env text sentences_count =
     (let sentences = sent_tokenize env text in
      if length sentences \<le> sentences_count then text
      else str_join '' ''
             (map (\<lambda>i. sentences ! i) (top_sentence_indices env sentences sentences_count)))"

text \<open>
  \<open>summarize\<close>. Loading the model and running it are inside the \<open>try\<close>; the text is
  truncated between the two, so the fallback sees the truncated text only when the
  model itself fails.
\<close>

definition truncate_words :: "string \<Rightarrow> string" where
  "truncate_words text =
     (let words = py_split text in
      if length words > 1024 then str_join '' '' (take 1024 words) else text)"

definition summarize :: "('f::linorder) analyzer \<Rightarrow> string \<Rightarrow> nat \<Rightarrow> nat \<Rightarrow> string" where
  "summarize env text max_length min_length =
     (if length (py_split text) < min_length then text
      else case summarizer env of
             Inl e \<Rightarrow> extractive_summarize env text 3
           | Inr model \<Rightarrow>
               (case model (truncate_words text) max_length min_length of
                  Inr summary_text \<Rightarrow> summary_text
                | Inl e \<Rightarrow> extractive_summarize env (truncate_words text) 3))"

subsection \<open>Topics\<close>

definition candidate_topics :: "string list" where
  "candidate_topics =
     [''business'', ''technology'', ''politics'', ''health'', ''science'',
      ''education'', ''entertainment'', ''sports'', ''environment'',
      ''finance'', ''law'', ''medicine'', ''art'', ''history'', ''literature'']"

text \<open>
  \<open>extract_topics\<close>: every exception ends in the empty list, also the \<open>IndexError\<close> of
  a result with fewer scores than labels read.
\<close>

definition extract_topics :: "'f analyzer \<Rightarrow> string \<Rightarrow> nat \<Rightarrow> (string \<times> 'f) list" where
  "extract_topics env text num_topics =
     (case classifier env of
        Inl e \<Rightarrow> []
      | Inr model \<Rightarrow>
          (case model (truncate_words text) candidate_topics of
             Inl e \<Rightarrow> []
           | Inr (labels, scores) \<Rightarrow>
               let n = min num_topics (length labels) in
               if length scores < n then []
               else zip (take n labels) (take n scores)))"

subsection \<open>Sentiment\<close>

record 'f sentiment_result =
  sr_label :: string
  sr_score :: 'f
  sr_positive_ratio :: "'f option"
  sr_negative_ratio :: "'f option"
  sr_error :: "string option"

text \<open>The packing of sentences into chunks; \<open>max_token_count = 512\<close>.\<close>

fun chunk_loop :: "string list \<Rightarrow> string list \<Rightarrow> string \<Rightarrow> string list \<times> string" where
  "chunk_loop [] chunks current_chunk = (chunks, current_chunk)"
| "chunk_loop (sentence # rest) chunks current_chunk =
     (if length (py_split current_chunk) + length (py_split sentence) < 512
      then chunk_loop rest chunks (current_chunk @ '' '' @ sentence)
      else chunk_loop rest
             (if current_chunk \<noteq> [] then chunks @ [strip current_chunk] else chunks)
             sentence)"

definition make_chunks :: "string list \<Rightarrow> string list" where
  "make_chunks sentences =
     (let (chunks, current_chunk) = chunk_loop sentences [] []
      in if current_chunk \<noteq> [] then chunks @ [strip current_chunk] else chunks)"

text \<open>The classification loop: empty chunks are skipped, the first exception ends it.\<close>

fun classify_chunks ::
  "(string \<Rightarrow> exn + string \<times> 'f) \<Rightarrow> string list \<Rightarrow> exn + (string \<times> 'f) list" where
  "classify_chunks model [] = Inr []"
| "classify_chunks model (chunk # rest) =
     (if chunk \<noteq> [] then
        and_then (model chunk) (\<lambda>result.
          and_then (classify_chunks model rest) (\<lambda>results. Inr (result # results)))
      else classify_chunks model rest)"

text \<open>The aggregation of the per-chunk results (label, score).\<close>

definition aggregate_sentiment ::
  "('f::linorder) float_ops \<Rightarrow> (string \<times> 'f) list \<Rightarrow> exn + 'f sentiment_result" where
  "aggregate_sentiment ops results =
     (if results = [] then
        Inr \<lparr>sr_label = ''NEUTRAL'', sr_score = f_lit ops (1 / 2),
             sr_positive_ratio = None, sr_negative_ratio = None, sr_error = None\<rparr>
      else
        let positive_score = py_sum ops (map snd (filter (\<lambda>r. fst r = ''POSITIVE'') results));
            negative_score = py_sum ops (map snd (filter (\<lambda>r. fst r = ''NEGATIVE'') results));
            positive_count = int (length (filter (\<lambda>r. fst r = ''POSITIVE'') results));
            negative_count = int (length (filter (\<lambda>r. fst r = ''NEGATIVE'') results));
            n = int (length results);
            (label, score) =
              (if positive_count > negative_count
               then (''POSITIVE'', fdiv_int ops positive_score n)
               else if negative_count > positive_count
               then (''NEGATIVE'', fdiv_int ops negative_score n)
               else if positive_score \<ge> negative_score
               then (''POSITIVE'', fdiv_int ops positive_score n)
               else (''NEGATIVE'', fdiv_int ops negative_score n))
        in and_then score (\<lambda>score.
           and_then (truediv ops positive_count n) (\<lambda>positive_ratio.
           and_then (truediv ops negative_count n) (\<lambda>negative_ratio.
             Inr \<lparr>sr_label = label, sr_score = score,
                  sr_positive_ratio = Some positive_ratio,
                  sr_negative_ratio = Some negative_ratio, sr_error = None\<rparr>))))"

definition sentiment_failure :: "'f float_ops \<Rightarrow> exn \<Rightarrow> 'f sentiment_result" where
  "sentiment_failure ops e =
     \<lparr>sr_label = ''NEUTRAL'', sr_score = f_lit ops (1 / 2),
      sr_positive_ratio = None, sr_negative_ratio = None, sr_error = Some (exn_str e)\<rparr>"

definition analyze_sentiment :: "('f::linorder) analyzer \<Rightarrow> string \<Rightarrow> 'f sentiment_result" where
  "analyze_sentiment env text =
     (case sentiment_pipeline env of
        Inl e \<Rightarrow> sentiment_failure (fops env) e
      | Inr sentiment_analyzer \<Rightarrow>
          (case and_then (classify_chunks sentiment_analyzer (make_chunks (sent_tokenize env text)))
                  (aggregate_sentiment (fops env)) of
             Inl e \<Rightarrow> sentiment_failure (fops env) e
           | Inr r \<Rightarrow> r))"

text \<open>
  The scores of the extractive summary in the specification's words. The content words
  are the tokens of all sentences that are no stop words and alphanumeric; the
  normalized frequency of a content word is its count divided by the largest count; a
  sentence that has a token with a frequency is scored with the sum of the frequencies
  of its tokens, added from the left.
\<close>

definition content_words :: "'f analyzer \<Rightarrow> string list \<Rightarrow> string list" where
  "content_words env sentences =
     filter (\<lambda>word. word \<notin> set (stop_words env) \<and> isalnum word)
       (concat (map (\<lambda>sentence. word_tokenize env (lower sentence)) sentences))"

definition normalized_frequency :: "'f analyzer \<Rightarrow> string list \<Rightarrow> string \<Rightarrow> 'f option" where
  "normalized_frequency env sentences word =
     (let content = content_words env sentences in
      if word \<in> set content
      then Some (f_div (fops env) (f_int (fops env) (int (count_list content word)))
                   (f_int (fops env) (Max (set (map (\<lambda>w. int (count_list content w)) content)))))
      else None)"

definition sentence_score :: "'f analyzer \<Rightarrow> string list \<Rightarrow> string \<Rightarrow> 'f option" where
  "sentence_score env sentences sentence =
     (case List.map_filter (normalized_frequency env sentences)
             (word_tokenize env (lower sentence)) of
        [] \<Rightarrow> None
      | v # vs \<Rightarrow> Some (foldl (f_add (fops env)) v vs))"

definition scored_sentences :: "'f analyzer \<Rightarrow> string list \<Rightarrow> (nat \<times> 'f) list" where
  "scored_sentences env sentences =
     List.map_filter (\<lambda>(i, sentence). map_option (Pair i) (sentence_score env sentences sentence))
       (enumerate 0 sentences)"

text \<open>
  A text of 47 words in 23 sentences of which only the first has a content word:
  \<open>Cats chase cat.\<close> followed by 22 times \<open>It is.\<close>
\<close>

definition sparse_text :: string where
  "sparse_text = ''Cats chase cat.'' @ concat (replicate 22 '' It is.'')"

text \<open>The score of one sentence from the frequencies of its tokens.\<close>

definition score_of :: "'f float_ops \<Rightarrow> (string \<Rightarrow> 'f option) \<Rightarrow> string list \<Rightarrow> 'f option" where
  "score_of ops fr ws = (case List.map_filter fr ws of [] \<Rightarrow> None
                          | v # vs \<Rightarrow> Some (foldl (f_add ops) v vs))"

text \<open>A text of six sentences whose three best sentences are, by score, the last, the first and the third.\<close>

definition ranked_text :: string where
  "ranked_text = ''Cats chase cat. It is. Cats chase. He was. Cat is. Cats chase cat cat.''"

subsection \<open>Readability\<close>

text \<open>
  The result dictionary of \<open>calculate_readability\<close>: the early return for a text
  without words or sentences has the first three keys only.
\<close>

record 'f readability_result =
  flesch_reading_ease :: 'f
  flesch_kincaid_grade :: 'f
  complex_word_ratio :: 'f
  avg_words_per_sentence :: "'f option"
  avg_syllables_per_word :: "'f option"

text \<open>The loop over the words, with \<open>syllable_count\<close> and \<open>complex_words\<close> as its state.\<close>

fun syllable_loop :: "string list \<Rightarrow> int \<Rightarrow> int \<Rightarrow> int \<times> int" where
  "syllable_loop [] syllable_count complex_words = (syllable_count, complex_words)"
| "syllable_loop (word # rest) syllable_count complex_words =
     (let syllables = count_syllables (lower word)
      in syllable_loop rest (syllable_count + syllables)
           (if syllables \<ge> 3 then complex_words + 1 else complex_words))"

definition calculate_readability :: "'f analyzer \<Rightarrow> string \<Rightarrow> exn + 'f readability_result" where
  "calculate_readability env text =
     (let ops = fops env;
          sentences = sent_tokenize env text;
          words = word_tokenize env text;
          words = filter (\<lambda>word. list_ex isalpha word) words
      in
      if words = [] \<or> sentences = [] then
        Inr \<lparr>flesch_reading_ease = f_int ops 0, flesch_kincaid_grade = f_int ops 0,
             complex_word_ratio = f_int ops 0,
             avg_words_per_sentence = None, avg_syllables_per_word = None\<rparr>
      else
        let word_count = int (length words);
            sentence_count = int (length sentences);
            (syllable_count, complex_words) = syllable_loop words 0 0
        in
        and_then
          (if sentence_count = 0 \<or> word_count = 0 then Inr (f_int ops 0)
           else and_then (truediv ops word_count sentence_count) (\<lambda>wps.
                and_then (truediv ops syllable_count word_count) (\<lambda>spw.
                  Inr (f_sub ops (f_sub ops (f_lit ops 206.835) (f_mul ops (f_lit ops 1.015) wps))
                         (f_mul ops (f_lit ops 84.6) spw)))))
          (\<lambda>fre.
        and_then
          (if sentence_count = 0 \<or> word_count = 0 then Inr (f_int ops 0)
           else and_then (truediv ops word_count sentence_count) (\<lambda>wps.
                and_then (truediv ops syllable_count word_count) (\<lambda>spw.
                  Inr (f_sub ops (f_add ops (f_mul ops (f_lit ops 0.39) wps)
                                            (f_mul ops (f_lit ops 11.8) spw))
                         (f_lit ops 15.59)))))
          (\<lambda>fkg.
        and_then
          (if word_count > 0 then truediv ops complex_words word_count else Inr (f_int ops 0))
          (\<lambda>cwr.
        and_then
          (if sentence_count > 0
           then and_then (truediv ops word_count sentence_count) (\<lambda>q. Inr (f_round ops q 2))
           else Inr (f_int ops 0))
          (\<lambda>awps.
        and_then
          (if word_count > 0
           then and_then (truediv ops syllable_count word_count) (\<lambda>q. Inr (f_round ops q 2))
           else Inr (f_int ops 0))
          (\<lambda>aspw.
            Inr \<lparr>flesch_reading_ease = f_round ops fre 2,
                 flesch_kincaid_grade = f_round ops fkg 2,
                 complex_word_ratio = f_round ops cwr 3,
                 avg_words_per_sentence = Some awps,
                 avg_syllables_per_word = Some aspw\<rparr>))))))"

text \<open>
  The readability figures in the specification's words: the syllables of all words, and
  the number of words with three or more syllables.
\<close>

definition total_syllables :: "string list \<Rightarrow> int" where
  "total_syllables words = sum_list (map (\<lambda>w. count_syllables (lower w)) words)"

definition complex_word_count :: "string list \<Rightarrow> int" where
  "complex_word_count words = int (length (filter (\<lambda>w. 3 \<le> count_syllables (lower w)) words))"

definition readability_words :: "'f analyzer \<Rightarrow> string \<Rightarrow> string list" where
  "readability_words env text = filter (\<lambda>word. list_ex isalpha word) (word_tokenize env text)"

subsection \<open>The analysis\<close>

text \<open>
  The result dictionary of \<open>analyze\<close>: a key is present when its field is not \<open>None\<close>.
  The options are a dictionary (\<open>None\<close> when the argument is omitted);
  \<open>options.get(key, dflt)\<close> reads them.
\<close>

record 'f analysis_result =
  ar_error :: "string option"
  ar_text_length :: "nat option"
  ar_word_count :: "nat option"
  ar_sentence_count :: "nat option"
  ar_keywords :: "(string \<times> 'f) list option"
  ar_entities :: "(string \<times> string list) list option"
  ar_summary :: "string option"
  ar_topics :: "(string \<times> 'f) list option"
  ar_sentiment :: "'f sentiment_result option"
  ar_readability :: "'f readability_result option"

definition empty_result :: "'f analysis_result" where
  "empty_result =
     \<lparr>ar_error = None, ar_text_length = None, ar_word_count = None, ar_sentence_count = None,
      ar_keywords = None, ar_entities = None, ar_summary = None, ar_topics = None,
      ar_sentiment = None, ar_readability = None\<rparr>"

definition default_options :: "string \<rightharpoonup> bool" where
  "default_options =
     [''keywords'' \<mapsto> True, ''entities'' \<mapsto> True, ''summary'' \<mapsto> True,
      ''topics'' \<mapsto> True, ''sentiment'' \<mapsto> False, ''readability'' \<mapsto> True]"

definition get_option :: "(string \<rightharpoonup> bool) \<Rightarrow> string \<Rightarrow> bool \<Rightarrow> bool" where
  "get_option options key dflt = (case options key of None \<Rightarrow> dflt | Some b \<Rightarrow> b)"

definition analyze ::
  "('f::linorder) analyzer \<Rightarrow> string \<Rightarrow> (string \<rightharpoonup> bool) option \<Rightarrow> exn + 'f analysis_result" where
  "analyze env text options_arg =
     (if text = [] \<or> strip text = [] then
        Inr (empty_result\<lparr>ar_error := Some ''Empty text provided for analysis''\<rparr>)
      else
        let options = (case options_arg of None \<Rightarrow> default_options | Some opts \<Rightarrow> opts);
            results = empty_result\<lparr>ar_text_length := Some (length text),
                                   ar_word_count := Some (length (word_tokenize env text))\<rparr>;
            sentences = sent_tokenize env text;
            results = results\<lparr>ar_sentence_count := Some (length sentences)\<rparr>
        in
        and_then
          (if get_option options ''keywords'' True
           then and_then (extract_keywords env text 10)
                  (\<lambda>kws. Inr (results\<lparr>ar_keywords := Some kws\<rparr>))
           else Inr results)
          (\<lambda>results.
        and_then
          (if get_option options ''entities'' True
           then and_then (extract_entities env text)
                  (\<lambda>ents. Inr (results\<lparr>ar_entities := Some ents\<rparr>))
           else Inr results)
          (\<lambda>results.
        let results = (if get_option options ''summary'' True
                       then results\<lparr>ar_summary := Some (summarize env text 150 40)\<rparr>
                       else results);
            results = (if get_option options ''topics'' True
                       then results\<lparr>ar_topics := Some (extract_topics env text 3)\<rparr>
                       else results);
            results = (if get_option options ''sentiment'' False
                       then results\<lparr>ar_sentiment := Some (analyze_sentiment env text)\<rparr>
                       else results)
        in
        if get_option options ''readability'' True
        then and_then (calculate_readability env text)
               (\<lambda>r. Inr (results\<lparr>ar_readability := Some r\<rparr>))
        else Inr results)))"

text \<open>The keys of a result dictionary.\<close>

definition result_keys :: "'f analysis_result \<Rightarrow> string set" where
  "result_keys r =
     (if ar_error r = None then {} else {''error''})
     \<union> (if ar_text_length r = None then {} else {''text_length''})
     \<union> (if ar_word_count r = None then {} else {''word_count''})
     \<union> (if ar_sentence_count r = None then {} else {''sentence_count''})
     \<union> (if ar_keywords r = None then {} else {''keywords''})
     \<union> (if ar_entities r = None then {} else {''entities''})
     \<union> (if ar_summary r = None then {} else {''summary''})
     \<union> (if ar_topics r = None then {} else {''topics''})
     \<union> (if ar_sentiment r = None then {} else {''sentiment''})
     \<union> (if ar_readability r = None then {} else {''readability''})"

text \<open>The result for zero chunks, and three chunk results to evaluate the aggregation on.\<close>

definition neutral_result :: "'f float_ops \<Rightarrow> 'f sentiment_result" where
  "neutral_result ops = \<lparr>sr_label = ''NEUTRAL'', sr_score = f_lit ops (1 / 2),
             sr_positive_ratio = None, sr_negative_ratio = None, sr_error = None\<rparr>"

definition sample_results :: "(string \<times> rat) list" where
  "sample_results = [(''POSITIVE'', 9 / 10), (''NEGATIVE'', 8 / 10), (''POSITIVE'', 6 / 10)]"

text \<open>
  Whether an optional section is enabled: the option's value when the options hold the
  key, and otherwise the default, which is true for every key but \<open>sentiment\<close>. An
  omitted options argument stands for the dictionary of the defaults.
\<close>

definition option_enabled :: "(string \<rightharpoonup> bool) option \<Rightarrow> string \<Rightarrow> bool" where
  "option_enabled options_arg key =
     get_option (case options_arg of None \<Rightarrow> default_options | Some opts \<Rightarrow> opts) key
       (key \<noteq> ''sentiment'')"

definition blank :: "string \<Rightarrow> bool" where
  "blank text = (text = [] \<or> strip text = [])"

definition base_keys :: "string set" where
  "base_keys = {''text_length'', ''word_count'', ''sentence_count''}"

definition all_disabled :: "string \<rightharpoonup> bool" where
  "all_disabled =
     [''keywords'' \<mapsto> False, ''entities'' \<mapsto> False, ''summary'' \<mapsto> False,
      ''topics'' \<mapsto> False, ''sentiment'' \<mapsto> False, ''readability'' \<mapsto> False]"

definition optional_keys :: "string set" where
  "optional_keys =
     {''keywords'', ''entities'', ''summary'', ''topics'', ''sentiment'', ''readability''}"

definition empty_text_error :: "'f analysis_result" where
  "empty_text_error = empty_result\<lparr>ar_error := Some ''Empty text provided for analysis''\<rparr>"

section \<open>A concrete analyzer\<close>

text \<open>
  To evaluate the model, the library functions are fixed to what the libraries return
  on the short texts used below: plain words separated by spaces, sentences ending in
  a period. \<open>demo_sent_tokenize\<close> ends a sentence at every period; \<open>demo_word_tokenize\<close>
  splits at white space and makes a final period a token of its own;
  \<open>demo_stop_words\<close> are some of NLTK's English stop words; \<open>demo_lemmatize\<close> is the
  WordNet lemmatizer on the words used. The TF-IDF matrix is the one of scikit-learn for
  the corpus of the single sentence "Cats chase cat." and for that of the single
  sentence "Dogs chase birds." (in both, three features of weight \<open>1 / sqrt 3\<close> each,
  given to four decimals; the features are the lowercased words of the sentence in
  alphabetical order); every other corpus used below consists of stop words only, for
  which \<open>fit_transform\<close> raises \<open>ValueError\<close>. The entity
  recognizer finds nothing and none of the three transformers models can be loaded.
  Floats are computed exactly.
\<close>

fun demo_sent_loop :: "string \<Rightarrow> string \<Rightarrow> string list" where
  "demo_sent_loop [] cur = (if cur = [] then [] else [rev cur])"
| "demo_sent_loop (c # cs) cur =
     (if c = CHR ''.'' then rev (c # cur) # demo_sent_loop cs []
      else if cur = [] \<and> isspace c then demo_sent_loop cs []
      else demo_sent_loop cs (c # cur))"

definition demo_sent_tokenize :: "string \<Rightarrow> string list" where
  "demo_sent_tokenize text = demo_sent_loop text []"

definition demo_word_tokenize :: "string \<Rightarrow> string list" where
  "demo_word_tokenize text =
     concat (map (\<lambda>w. if 1 < length w \<and> last w = CHR ''.'' then [butlast w, ''.''] else [w])
                 (py_split text))"

definition demo_stop_words :: "string list" where
  "demo_stop_words =
     [''the'', ''it'', ''is'', ''he'', ''was'', ''we'', ''are'', ''a'', ''and'', ''of'', ''to'', ''in'']"

definition demo_lemmatize :: "string \<Rightarrow> string" where
  "demo_lemmatize w =
     (if w = ''cats'' then ''cat'' else if w = ''bananas'' then ''banana''
      else if w = ''dogs'' then ''dog'' else if w = ''birds'' then ''bird'' else w)"

definition demo_features :: "string list" where
  "demo_features = [''cat'', ''cats'', ''chase'']"

definition demo_matrix :: "nat \<Rightarrow> nat \<Rightarrow> rat" where
  "demo_matrix i j = 5774 / 10000"

definition demo_tfidf :: "string list \<Rightarrow> exn + string list \<times> (nat \<Rightarrow> nat \<Rightarrow> rat)" where
  "demo_tfidf sentences =
     (if sentences = [''Cats chase cat.'']
      then Inr (demo_features, demo_matrix)
      else if sentences = [''Dogs chase birds.'']
      then Inr ([''birds'', ''chase'', ''dogs''], demo_matrix)
      else Inl (Raised ''ValueError''
                  ''empty vocabulary; perhaps the documents only contain stop words''))"

definition model_missing :: exn where
  "model_missing = Raised ''OSError'' ''the model cannot be loaded''"

definition demo_env :: "rat analyzer" where
  "demo_env =
     \<lparr>word_tokenize = demo_word_tokenize, sent_tokenize = demo_sent_tokenize,
      stop_words = demo_stop_words, lemmatize = demo_lemmatize, set_order = remdups,
      tfidf_fit = demo_tfidf, spacy_ents = (\<lambda>text. Inr []),
      summarizer = Inl model_missing, classifier = Inl model_missing,
      sentiment_pipeline = Inl model_missing, fops = exact_ops\<rparr>"

definition demo_text :: string where
  "demo_text = ''Cats chase cat.''"

section \<open>The document extractor\<close>

text \<open>
  \<open>DocumentExtractor\<close> reads files through libraries that are not part of the
  repository. The world below holds what they return for a path: whether the path
  exists, the PyPDF2 reader (its metadata and, for every page, what \<open>extract_text\<close>
  returns or raises), the text of pdfminer, the python-docx document, the decoded
  output of textract, the text of the file read with an encoding, the file size, the
  images PyMuPDF finds on each page (what \<open>extract_image\<close> returns, the bytes in base64
  with the format, or raises), the relationships of a DOCX package (identifier, target,
  bytes in base64, content type), and the OCR and perceptual hash of an image.
\<close>

datatype meta_value = MStr string | MInt nat

record pdf_reader =
  pr_metadata :: "(string \<times> string) list option"
  pr_pages :: "(exn + string) list"

record docx_document =
  dx_title :: "string option"
  dx_author :: "string option"
  dx_subject :: "string option"
  dx_created :: "string option"
  dx_modified :: "string option"
  dx_paragraphs :: "string list"
  dx_tables :: "string list list list"

record 'c image_sample =
  im_content :: string
  im_format :: string
  im_page :: "nat option"
  im_index :: "nat option"
  im_relationship_id :: "string option"
  im_ocr_text :: string
  im_ocr_confidence :: 'c
  im_phash :: string

record 'c world =
  path_exists :: "string \<Rightarrow> bool"
  pypdf2_reader :: "string \<Rightarrow> exn + pdf_reader"
  pdfminer_extract_text :: "string \<Rightarrow> exn + string"
  docx_open :: "string \<Rightarrow> exn + docx_document"
  textract_process :: "string \<Rightarrow> exn + string"
  read_text :: "string \<Rightarrow> string \<Rightarrow> exn + string"
  getsize :: "string \<Rightarrow> exn + nat"
  fitz_open :: "string \<Rightarrow> exn + (exn + string \<times> string) list list"
  docx_rels :: "string \<Rightarrow> exn + (string \<times> string \<times> string \<times> string) list"
  ocr_image_from_base64 :: "string \<Rightarrow> exn + string \<times> 'c"
  image_perceptual_hash :: "string \<Rightarrow> exn + string"

text \<open>
  The result dictionary of the extractor: a key is present when its field is not
  \<open>None\<close>.
\<close>

record 'c extraction_result =
  er_text :: "string option"
  er_metadata :: "(string \<times> meta_value) list option"
  er_pages :: "string list option"
  er_paragraphs :: "string list option"
  er_lines :: "string list option"
  er_page_count :: "nat option"
  er_error :: "string option"
  er_images :: "'c image_sample list option"

definition no_result :: "'c extraction_result" where
  "no_result =
     \<lparr>er_text = None, er_metadata = None, er_pages = None, er_paragraphs = None,
      er_lines = None, er_page_count = None, er_error = None, er_images = None\<rparr>"

definition error_result :: "string \<Rightarrow> 'c extraction_result" where
  "error_result msg = no_result\<lparr>er_error := Some msg\<rparr>"

text \<open>\<open>try: body except Exception as e: handler(e)\<close>.\<close>

definition try_except :: "exn + 'a \<Rightarrow> (exn \<Rightarrow> exn + 'a) \<Rightarrow> exn + 'a" where
  "try_except body handler = (case body of Inl e \<Rightarrow> handler e | Inr v \<Rightarrow> Inr v)"

subsection \<open>Paths\<close>

text \<open>\<open>s.split(sep)\<close> for a separator of one character; \<open>w\<close> is the piece being read, reversed.\<close>

fun split_char_loop :: "char \<Rightarrow> string \<Rightarrow> string \<Rightarrow> string list" where
  "split_char_loop sep [] w = [rev w]"
| "split_char_loop sep (c # cs) w =
     (if c = sep then rev w # split_char_loop sep cs [] else split_char_loop sep cs (c # w))"

definition split_char :: "char \<Rightarrow> string \<Rightarrow> string list" where
  "split_char sep s = split_char_loop sep s []"

text \<open>\<open>os.path.basename\<close> on POSIX paths: what follows the last slash.\<close>

definition basename :: "string \<Rightarrow> string" where
  "basename p = rev (takeWhile (\<lambda>c. c \<noteq> CHR ''/'') (rev p))"

text \<open>
  The extension of \<open>os.path.splitext\<close> on POSIX paths: from the last dot of the base
  name, unless only dots stand before it in the base name.
\<close>

definition file_ext :: "string \<Rightarrow> string" where
  "file_ext p =
     (let base = basename p;
          upto_dot = dropWhile (\<lambda>c. c \<noteq> CHR ''.'') (rev base)
      in if upto_dot = [] then []
         else if list_all (\<lambda>c. c = CHR ''.'') (tl upto_dot) then []
         else CHR ''.'' # rev (takeWhile (\<lambda>c. c \<noteq> CHR ''.'') (rev base)))"

subsection \<open>Text extraction\<close>

text \<open>\<open>metadata.get(key, '')\<close>.\<close>

definition meta_get :: "(string \<times> string) list \<Rightarrow> string \<Rightarrow> string" where
  "meta_get md key = (case map_of md key of None \<Rightarrow> [] | Some v \<Rightarrow> v)"

text \<open>The loop over the pages of the reader; a page whose extraction raises ends it.\<close>

fun pypdf2_page_loop ::
  "(exn + string) list \<Rightarrow> string list \<Rightarrow> string \<Rightarrow> exn + string list \<times> string" where
  "pypdf2_page_loop [] pages full_text = Inr (pages, full_text)"
| "pypdf2_page_loop (page # rest) pages full_text =
     (case page of
        Inl e \<Rightarrow> Inl e
      | Inr text \<Rightarrow>
          if text \<noteq> [] then pypdf2_page_loop rest (pages @ [text]) (full_text @ text @ [CHR 0x0A, CHR 0x0A])
          else pypdf2_page_loop rest pages full_text)"

definition extract_from_pdf_with_pypdf2 :: "'c world \<Rightarrow> string \<Rightarrow> exn + 'c extraction_result" where
  "extract_from_pdf_with_pypdf2 w file_path =
     and_then (pypdf2_reader w file_path) (\<lambda>reader.
       let metadata_dict =
             (case pr_metadata reader of
                None \<Rightarrow> []
              | Some metadata \<Rightarrow>
                  if metadata = [] then []
                  else [(''title'', MStr (meta_get metadata ''/Title'')),
                        (''author'', MStr (meta_get metadata ''/Author'')),
                        (''subject'', MStr (meta_get metadata ''/Subject'')),
                        (''creator'', MStr (meta_get metadata ''/Creator'')),
                        (''producer'', MStr (meta_get metadata ''/Producer''))])
       in and_then (pypdf2_page_loop (pr_pages reader) [] []) (\<lambda>(pages, full_text).
            Inr (no_result\<lparr>er_text := Some (strip full_text),
                            er_metadata := Some metadata_dict,
                            er_pages := Some pages,
                            er_page_count := Some (length (pr_pages reader))\<rparr>)))"

definition extract_from_pdf_with_pdfminer :: "'c world \<Rightarrow> string \<Rightarrow> exn + 'c extraction_result" where
  "extract_from_pdf_with_pdfminer w file_path =
     and_then (pdfminer_extract_text w file_path) (\<lambda>full_text.
       let pages = split_char (CHR 0x0C) full_text;
           pages = map strip (filter (\<lambda>p. strip p \<noteq> []) pages)
       in Inr (no_result\<lparr>er_text := Some (strip full_text),
                          er_metadata := Some [],
                          er_pages := Some pages,
                          er_page_count := Some (length pages)\<rparr>))"

definition extract_from_pdf :: "'c world \<Rightarrow> string \<Rightarrow> exn + 'c extraction_result" where
  "extract_from_pdf w file_path =
     try_except (extract_from_pdf_with_pypdf2 w file_path)
       (\<lambda>e. extract_from_pdf_with_pdfminer w file_path)"

text \<open>\<open>value or ''\<close> for a property that may be \<open>None\<close>.\<close>

definition or_empty :: "string option \<Rightarrow> string" where
  "or_empty v = (case v of None \<Rightarrow> [] | Some s \<Rightarrow> s)"

definition docx_table_text :: "string list list list \<Rightarrow> string" where
  "docx_table_text tables =
     concat (map (\<lambda>row.
                    let row_text = str_join '' | '' (filter (\<lambda>cell. cell \<noteq> []) row)
                    in if row_text \<noteq> [] then row_text @ [CHR 0x0A] else [])
                 (concat tables))"

definition extract_from_docx :: "'c world \<Rightarrow> string \<Rightarrow> exn + 'c extraction_result" where
  "extract_from_docx w file_path =
     and_then (docx_open w file_path) (\<lambda>doc.
       let metadata = [(''title'', MStr (or_empty (dx_title doc))),
                       (''author'', MStr (or_empty (dx_author doc))),
                       (''subject'', MStr (or_empty (dx_subject doc))),
                       (''created'', MStr (or_empty (dx_created doc))),
                       (''modified'', MStr (or_empty (dx_modified doc)))];
           paragraphs = filter (\<lambda>para. para \<noteq> []) (dx_paragraphs doc);
           full_text = concat (map (\<lambda>para. para @ [CHR 0x0A]) paragraphs);
           full_text = full_text @ docx_table_text (dx_tables doc)
       in Inr (no_result\<lparr>er_text := Some (strip full_text),
                          er_metadata := Some metadata,
                          er_paragraphs := Some paragraphs\<rparr>))"

definition extract_from_doc :: "'c world \<Rightarrow> string \<Rightarrow> exn + 'c extraction_result" where
  "extract_from_doc w file_path =
     try_except
       (and_then (textract_process w file_path) (\<lambda>text.
          Inr (no_result\<lparr>er_text := Some (strip text), er_metadata := Some []\<rparr>)))
       (\<lambda>e. Inr (error_result (''DOC extraction failed: '' @ exn_str e)))"

text \<open>
  Reading a text file with an encoding, as both branches of \<open>_extract_from_txt\<close> do;
  the second one adds the encoding to the metadata.
\<close>

definition read_txt :: "'c world \<Rightarrow> string \<Rightarrow> string \<Rightarrow> bool \<Rightarrow> exn + 'c extraction_result" where
  "read_txt w file_path encoding with_encoding =
     and_then (read_text w file_path encoding) (\<lambda>text.
       let lines = split_char (CHR 0x0A) text in
       and_then (getsize w file_path) (\<lambda>size.
         Inr (no_result\<lparr>er_text := Some (strip text),
                         er_metadata :=
                           Some ([(''filename'', MStr (basename file_path)), (''size'', MInt size)]
                                 @ (if with_encoding then [(''encoding'', MStr encoding)] else [])),
                         er_lines := Some lines\<rparr>)))"

definition extract_from_txt :: "'c world \<Rightarrow> string \<Rightarrow> exn + 'c extraction_result" where
  "extract_from_txt w file_path =
     (case read_txt w file_path ''utf-8'' False of
        Inr r \<Rightarrow> Inr r
      | Inl e \<Rightarrow>
          if exn_class e = ''UnicodeDecodeError''
          then try_except (read_txt w file_path ''latin-1'' True)
                 (\<lambda>e. Inr (error_result (''Text extraction failed: '' @ exn_str e)))
          else Inl e)"

definition extract_with_textract :: "'c world \<Rightarrow> string \<Rightarrow> exn + 'c extraction_result" where
  "extract_with_textract w file_path =
     try_except
       (and_then (textract_process w file_path) (\<lambda>text.
          and_then (getsize w file_path) (\<lambda>size.
            Inr (no_result\<lparr>er_text := Some (strip text),
                            er_metadata := Some [(''filename'', MStr (basename file_path)),
                                                 (''size'', MInt size)]\<rparr>))))
       (\<lambda>e. Inr (error_result (''Unsupported file type extraction failed: '' @ exn_str e)))"

definition supported_extensions ::
  "(string \<times> ('c world \<Rightarrow> string \<Rightarrow> exn + 'c extraction_result)) list" where
  "supported_extensions =
     [(''.pdf'', extract_from_pdf), (''.docx'', extract_from_docx),
      (''.doc'', extract_from_doc), (''.txt'', extract_from_txt)]"

text \<open>\<open>DocumentExtractor.extract\<close>.\<close>

definition extract_document :: "'c world \<Rightarrow> string \<Rightarrow> exn + 'c extraction_result" where
  "extract_document w file_path =
     (if \<not> path_exists w file_path then Inr (error_result (''File not found: '' @ file_path))
      else
        let ext = file_ext (lower file_path) in
        case map_of supported_extensions ext of
          None \<Rightarrow> extract_with_textract w file_path
        | Some handler \<Rightarrow>
            try_except (handler w file_path)
              (\<lambda>e. Inr (error_result (''Extraction failed: '' @ exn_str e))))"

subsection \<open>Image extraction\<close>

text \<open>
  \<open>image_utils.extract_images_from_pdf\<close> and \<open>extract_images_from_docx\<close>. Neither has an
  exception handler: what opening the file, extracting an image, the OCR or the hash
  raises escapes them.
\<close>

definition make_sample ::
  "'c world \<Rightarrow> string \<Rightarrow> string \<Rightarrow> nat option \<Rightarrow> nat option \<Rightarrow> string option
     \<Rightarrow> exn + 'c image_sample" where
  "make_sample w b64 img_format page idx rel =
     and_then (ocr_image_from_base64 w b64) (\<lambda>(ocr_text, ocr_confidence).
       and_then (image_perceptual_hash w b64) (\<lambda>phash.
         Inr \<lparr>im_content = b64, im_format = img_format, im_page = page, im_index = idx,
              im_relationship_id = rel, im_ocr_text = ocr_text,
              im_ocr_confidence = ocr_confidence, im_phash = phash\<rparr>))"

fun pdf_image_loop ::
  "'c world \<Rightarrow> nat \<Rightarrow> nat \<Rightarrow> (exn + string \<times> string) list \<Rightarrow> 'c image_sample list
     \<Rightarrow> exn + 'c image_sample list" where
  "pdf_image_loop w page_num img_index [] images = Inr images"
| "pdf_image_loop w page_num img_index (img # rest) images =
     and_then img (\<lambda>(b64, img_format).
       and_then (make_sample w b64 img_format (Some (page_num + 1)) (Some img_index) None)
         (\<lambda>sample. pdf_image_loop w page_num (Suc img_index) rest (images @ [sample])))"

fun pdf_page_loop ::
  "'c world \<Rightarrow> nat \<Rightarrow> (exn + string \<times> string) list list \<Rightarrow> 'c image_sample list
     \<Rightarrow> exn + 'c image_sample list" where
  "pdf_page_loop w page_num [] images = Inr images"
| "pdf_page_loop w page_num (img_list # rest) images =
     and_then (pdf_image_loop w page_num 0 img_list images)
       (\<lambda>images. pdf_page_loop w (Suc page_num) rest images)"

definition extract_images_from_pdf :: "'c world \<Rightarrow> string \<Rightarrow> exn + 'c image_sample list" where
  "extract_images_from_pdf w file_path =
     and_then (fitz_open w file_path) (\<lambda>doc. pdf_page_loop w 0 doc [])"

fun docx_rel_loop ::
  "'c world \<Rightarrow> (string \<times> string \<times> string \<times> string) list \<Rightarrow> 'c image_sample list
     \<Rightarrow> exn + 'c image_sample list" where
  "docx_rel_loop w [] images = Inr images"
| "docx_rel_loop w ((rel, target_ref, b64, content_type) # rest) images =
     (if find_sub ''image'' target_ref \<noteq> None then
        and_then (make_sample w b64 (last (split_char (CHR ''/'') content_type)) None None (Some rel))
          (\<lambda>sample. docx_rel_loop w rest (images @ [sample]))
      else docx_rel_loop w rest images)"

definition extract_images_from_docx :: "'c world \<Rightarrow> string \<Rightarrow> exn + 'c image_sample list" where
  "extract_images_from_docx w file_path =
     and_then (docx_rels w file_path) (\<lambda>rels. docx_rel_loop w rels [])"

definition extract_with_images :: "'c world \<Rightarrow> string \<Rightarrow> exn + 'c extraction_result" where
  "extract_with_images w file_path =
     and_then (extract_document w file_path) (\<lambda>base.
       let ext = file_ext (lower file_path) in
       and_then (if ext = ''.pdf'' then extract_images_from_pdf w file_path
                 else if ext = ''.docx'' then extract_images_from_docx w file_path
                 else Inr [])
         (\<lambda>images. Inr (base\<lparr>er_images := Some images\<rparr>)))"

subsection \<open>Three concrete worlds\<close>

text \<open>
  A world without files: no path exists and every library call raises the error of a
  missing file.
\<close>

definition file_missing :: "string \<Rightarrow> exn" where
  "file_missing p = Raised ''FileNotFoundError'' (''no such file: '' @ p)"

definition empty_world :: "rat world" where
  "empty_world =
     \<lparr>path_exists = (\<lambda>p. False),
      pypdf2_reader = (\<lambda>p. Inl (file_missing p)),
      pdfminer_extract_text = (\<lambda>p. Inl (file_missing p)),
      docx_open = (\<lambda>p. Inl (file_missing p)),
      textract_process = (\<lambda>p. Inl (file_missing p)),
      read_text = (\<lambda>p enc. Inl (file_missing p)),
      getsize = (\<lambda>p. Inl (file_missing p)),
      fitz_open = (\<lambda>p. Inl (file_missing p)),
      docx_rels = (\<lambda>p. Inl (file_missing p)),
      ocr_image_from_base64 = (\<lambda>b. Inl (file_missing b)),
      image_perceptual_hash = (\<lambda>b. Inl (file_missing b))\<rparr>"

text \<open>The world with one file, the empty text file \<open>empty.txt\<close>.\<close>

definition one_file_world :: "rat world" where
  "one_file_world =
     empty_world
       \<lparr>path_exists := (\<lambda>p. p = ''empty.txt''),
        read_text := (\<lambda>p enc. if p = ''empty.txt'' then Inr [] else Inl (file_missing p)),
        getsize := (\<lambda>p. if p = ''empty.txt'' then Inr 0 else Inl (file_missing p))\<rparr>"

text \<open>
  The world whose only file is \<open>scan.pdf\<close>: PyPDF2 reads one page with the text
  \<open>Hello\<close>, PyMuPDF finds one PNG image on it, and the OCR of the image raises because
  no OCR engine is installed.
\<close>

definition ocr_missing :: exn where
  "ocr_missing = Raised ''TesseractNotFoundError'' ''tesseract is not installed''"

definition scan_world :: "rat world" where
  "scan_world =
     empty_world
       \<lparr>path_exists := (\<lambda>p. p = ''scan.pdf''),
        pypdf2_reader := (\<lambda>p. if p = ''scan.pdf''
                               then Inr \<lparr>pr_metadata = None, pr_pages = [Inr ''Hello'']\<rparr>
                               else Inl (file_missing p)),
        fitz_open := (\<lambda>p. if p = ''scan.pdf'' then Inr [[Inr (''aW1n'', ''png'')]]
                           else Inl (file_missing p)),
        ocr_image_from_base64 := (\<lambda>b. Inl ocr_missing)\<rparr>"

text \<open>
  A well-formed result: it has the key \<open>text\<close> and no key \<open>error\<close>, or no key
  \<open>text\<close> and a non-empty error description.
\<close>

definition good :: "'c extraction_result \<Rightarrow> bool" where
  "good r = ((er_text r \<noteq> None \<and> er_error r = None)
             \<or> (er_text r = None \<and> (\<exists>m. er_error r = Some m \<and> m \<noteq> [])))"

section \<open>Properties of the syllable estimator\<close>

lemma lower_lowercase: "list_all is_lower w \<Longrightarrow> lower w = w"
  by (induction w) (auto simp: lower_def lower_char_def is_upper_def is_lower_def Let_def)

lemma filter_letters_lowercase: "list_all is_lower w \<Longrightarrow> filter ascii_letter w = w"
  by (induction w) (auto simp: ascii_letter_def is_lower_def Let_def)

lemma starts_from_Cons:
  "starts_from p (c # cs) =
     (if c \<in> set vowels \<and> \<not> p then 1 else 0) + starts_from (c \<in> set vowels) cs"
proof -
  let ?P = "\<lambda>i. (c # cs) ! i \<in> set vowels \<and>
                 (if i = 0 then \<not> p else (c # cs) ! (i - 1) \<notin> set vowels)"
  let ?Q = "\<lambda>i. cs ! i \<in> set vowels \<and>
                 (if i = 0 then \<not> (c \<in> set vowels) else cs ! (i - 1) \<notin> set vowels)"
  have upt: "[0..<length (c # cs)] = 0 # map Suc [0..<length cs]"
    by (simp add: upt_conv_Cons map_Suc_upt del: upt_Suc)
  have PQ: "?P (Suc j) = ?Q j" for j
    by (cases j) simp_all
  have "filter ?P (map Suc [0..<length cs]) = map Suc (filter ?Q [0..<length cs])"
    unfolding filter_map comp_def PQ ..
  then have "length (filter ?P [0..<length (c # cs)]) =
      (if ?P 0 then 1 else 0) + length (filter ?Q [0..<length cs])"
    unfolding upt by simp
  then show ?thesis
    unfolding starts_from_def by simp
qed

lemma vowel_loop_starts_from: "vowel_loop w p c = c + int (starts_from p w)"
proof (induction w arbitrary: p c)
  case Nil
  show ?case by (simp add: starts_from_def)
next
  case (Cons a w)
  show ?case by (simp add: Cons.IH starts_from_Cons Let_def)
qed

lemma starts_from_False: "starts_from False w = vowel_group_starts w"
proof -
  have "(if i = 0 then \<not> False else w ! (i - 1) \<notin> set vowels) =
        (i = 0 \<or> w ! (i - 1) \<notin> set vowels)" for i
    by simp
  then show ?thesis
    unfolding starts_from_def vowel_group_starts_def by simp
qed

text \<open>
  C8. For every non-empty word of lowercase ASCII letters, the estimator returns 1 for
  the six special words and otherwise the number of vowel-group starts, minus 1 if the
  word ends in "e", plus 1 if it ends in "le", has three or more characters and the
  character before "le" is not a vowel, and at least 1.
\<close>

theorem count_syllables_spec:
  assumes "lowercase_word w"
  shows "count_syllables w =
     (if w \<in> set special_words then 1
      else max 1 (int (vowel_group_starts w)
                   - (if endswith w ''e'' then 1 else 0)
                   + (if endswith w ''le'' \<and> 3 \<le> length w
                         \<and> w ! (length w - 3) \<notin> set vowels then 1 else 0)))"
proof -
  from assms have ne: "w \<noteq> []" and low: "list_all is_lower w"
    by (simp_all add: lowercase_word_def)
  have word: "filter ascii_letter (lower w) = w"
    by (simp add: lower_lowercase [OF low] filter_letters_lowercase [OF low])
  have len: "(2 < length w) = (3 \<le> length w)"
    by arith
  show ?thesis
    unfolding count_syllables_def word Let_def vowel_loop_starts_from starts_from_False len
    using ne by (simp add: max.commute)
qed

theorem count_syllables_spec_witness:
  "lowercase_word ''table'' \<and> count_syllables ''table'' = 2
   \<and> int (vowel_group_starts ''table'') - 1 + 1 = 2"
proof -
  have h: "lowercase_word ''table''"
    by code_simp
  have v: "vowel_group_starts ''table'' = 2"
    by code_simp
  have e: "endswith ''table'' ''e''" "endswith ''table'' ''le''"
    by code_simp+
  have n: "''table'' ! (length ''table'' - 3) \<notin> set vowels" "''table'' \<notin> set special_words"
    by code_simp+
  show ?thesis
    using h count_syllables_spec [OF h] v e n by simp
qed

section \<open>Properties of the math tagger\<close>

lemma find_sub_Some:
  "find_sub pat s = Some j \<Longrightarrow> j + length pat \<le> length s \<and> take (length pat) (drop j s) = pat"
proof (induction s arbitrary: j)
  case Nil
  then show ?case by (simp split: if_splits)
next
  case (Cons c cs)
  show ?case
  proof (cases "take (length pat) (c # cs) = pat")
    case True
    with Cons.prems have j: "j = 0" by simp
    from True have "length (take (length pat) (c # cs)) = length pat" by simp
    then have "length pat \<le> length (c # cs)" by (simp del: take_Suc_Cons length_take add: length_take min_def split: if_splits)
    with True j show ?thesis by simp
  next
    case False
    with Cons.prems obtain j' where j': "find_sub pat cs = Some j'" "j = Suc j'"
      by auto
    from Cons.IH [OF j'(1)] j'(2) show ?thesis by simp
  qed
qed

lemma finditer_from_props:
  assumes "opn \<noteq> []" and "text = pre @ s" and "k = length pre"
    and "(a, b) \<in> set (finditer_from opn cls k s)"
  shows "k \<le> a \<and> a + length opn + length cls \<le> b \<and> b \<le> length text
     \<and> take (length opn) (drop a text) = opn
     \<and> find_sub cls (drop (a + length opn) text) = Some (b - a - length opn - length cls)"
  using assms
proof (induction opn cls k s arbitrary: pre rule: finditer_from.induct)
  case (1 opn cls k)
  then show ?case by simp
next
  case (2 opn cls k c cs)
  have step: "text = (pre @ [c]) @ cs" "Suc k = length (pre @ [c])"
    using "2.prems" by simp_all
  show ?case
  proof (cases "take (length opn) (c # cs) = opn")
    case False
    with "2.prems" have "(a, b) \<in> set (finditer_from opn cls (Suc k) cs)" by simp
    from "2.IH"(3) [OF False "2.prems"(1) step this] show ?thesis by simp
  next
    case True
    show ?thesis
    proof (cases "find_sub cls (drop (length opn) (c # cs))")
      case None
      with True "2.prems" have "(a, b) \<in> set (finditer_from opn cls (Suc k) cs)" by simp
      from "2.IH"(1) [OF True None "2.prems"(1) step this] show ?thesis by simp
    next
      case (Some j)
      define n where "n = length opn + j + length cls"
      from find_sub_Some [OF Some] have jb: "j + length cls \<le> length (c # cs) - length opn"
        by simp
      from True have "length (take (length opn) (c # cs)) = length opn" by simp
      then have ob: "length opn \<le> length (c # cs)"
        by (simp del: take_Suc_Cons length_take add: length_take min_def split: if_splits)
      from "2.prems"(1) have n0: "0 < n" by (simp add: n_def)
      from jb ob have nb: "n \<le> length (c # cs)" by (simp add: n_def)
      have dr: "drop (n - 1) cs = drop n (c # cs)"
        using n0 by (cases n) simp_all
      from True Some "2.prems"(4)
      have mem: "(a, b) = (k, k + n) \<or> (a, b) \<in> set (finditer_from opn cls (k + n) (drop (n - 1) cs))"
        by (simp add: n_def Let_def)
      then show ?thesis
      proof
        assume "(a, b) = (k, k + n)"
        then have ab: "a = k" "b = k + n" by simp_all
        have d: "drop k text = c # cs" using "2.prems" by simp
        have d2: "drop (k + length opn) text = drop (length opn) (c # cs)"
          using d by (metis add.commute drop_drop)
        show ?thesis
          using ab nb True Some "2.prems"(2,3) d d2 by (simp add: n_def)
      next
        assume r: "(a, b) \<in> set (finditer_from opn cls (k + n) (drop (n - 1) cs))"
        have t: "text = (pre @ take n (c # cs)) @ drop (n - 1) cs"
          using "2.prems"(2) dr by simp
        have l: "k + n = length (pre @ take n (c # cs))"
          using "2.prems"(3) nb by simp
        from "2.IH"(2) [OF True Some n_def "2.prems"(1) t l r]
        show ?thesis by simp
      qed
    qed
  qed
qed

lemma take_eq_length: "take (length pat) s = pat \<Longrightarrow> length pat \<le> length s"
proof -
  assume "take (length pat) s = pat"
  then have "length (take (length pat) s) = length pat" by simp
  then show ?thesis by (simp add: min_def split: if_splits)
qed

lemma find_sub_take:
  "find_sub pat s = Some j \<Longrightarrow> find_sub pat (take (j + length pat) s) = Some j"
proof (induction s arbitrary: j)
  case Nil
  then show ?case by (simp split: if_splits)
next
  case (Cons c cs)
  show ?case
  proof (cases "take (length pat) (c # cs) = pat")
    case True
    with Cons.prems have j: "j = 0" by simp
    have "find_sub pat (take (length pat) (c # cs)) = Some 0"
      unfolding True by (cases pat) simp_all
    with j show ?thesis by simp
  next
    case False
    with Cons.prems obtain j' where j': "find_sub pat cs = Some j'" "j = Suc j'"
      by auto
    have tt: "take (length pat) (c # take (j' + length pat) cs) = take (length pat) (c # cs)"
    proof -
      have "take (length pat) (take (Suc (j' + length pat)) (c # cs)) = take (length pat) (c # cs)"
        unfolding take_take by (simp add: min_def)
      then show ?thesis by simp
    qed
    have "find_sub pat (c # take (j' + length pat) cs) = Some (Suc j')"
      using False Cons.IH [OF j'(1)] unfolding find_sub.simps tt by simp
    with j'(2) show ?thesis by simp
  qed
qed

lemma match_content:
  assumes "opn \<noteq> []" and "(a, b) \<in> set (finditer_from opn cls 0 text)"
  defines "c \<equiv> take (b - a) (drop a text)"
  shows "a + length opn + length cls \<le> b \<and> b \<le> length text
     \<and> take (length opn) c = opn \<and> endswith c cls
     \<and> find_sub cls (drop (length opn) c) = Some (length c - length opn - length cls)"
proof -
  have "text = [] @ text" "0 = length ([] :: string)" by simp_all
  from finditer_from_props [OF assms(1) this assms(2)]
  have le: "a + length opn + length cls \<le> b" and b: "b \<le> length text"
    and o: "take (length opn) (drop a text) = opn"
    and f: "find_sub cls (drop (a + length opn) text) = Some (b - a - length opn - length cls)"
    by simp_all
  define j where "j = b - a - length opn - length cls"
  have lc: "length c = b - a" using le b by (simp add: c_def)
  have jl: "j + length cls = b - a - length opn" using le by (simp add: j_def)
  have dc: "drop (length opn) c = take (j + length cls) (drop (a + length opn) text)"
    unfolding c_def jl by (simp add: drop_take add.commute)
  have "min (length opn) (b - a) = length opn" using le by simp
  then have 1: "take (length opn) c = opn"
    using o unfolding c_def by (simp only: take_take)
  have 2: "find_sub cls (drop (length opn) c) = Some j"
    unfolding dc using find_sub_take [OF f [folded j_def]] .
  from find_sub_Some [OF 2] have "take (length cls) (drop j (drop (length opn) c)) = cls"
    by simp
  moreover have "length (drop j (drop (length opn) c)) = length cls"
    using le lc by (simp add: j_def)
  ultimately have "drop (j + length opn) c = cls"
    by (simp add: add.commute)
  moreover have "j + length opn = length c - length cls"
    using le lc by (simp add: j_def)
  ultimately have 3: "endswith c cls"
    using le lc by (simp add: endswith_def)
  show ?thesis using le b 1 2 3 lc by (simp add: j_def)
qed

lemma find_sub_occurs: "find_sub pat s = Some j \<Longrightarrow> occurs_at pat s j"
  using find_sub_Some [of pat s j] by (simp add: occurs_at_def)

lemma occurs_at_Cons: "occurs_at pat (c # cs) (Suc i) = occurs_at pat cs i"
  by (simp add: occurs_at_def)

lemma occurs_at_0: "occurs_at pat s 0 = (take (length pat) s = pat)"
proof
  assume "occurs_at pat s 0" then show "take (length pat) s = pat" by (simp add: occurs_at_def)
next
  assume a: "take (length pat) s = pat"
  then have "length (take (length pat) s) = length pat" by simp
  then have "length pat \<le> length s" by (simp add: min_def split: if_splits)
  with a show "occurs_at pat s 0" by (simp add: occurs_at_def)
qed

lemma find_sub_least: "find_sub pat s = Some j \<Longrightarrow> i < j \<Longrightarrow> \<not> occurs_at pat s i"
proof (induction s arbitrary: i j)
  case Nil
  then show ?case by (simp split: if_splits)
next
  case (Cons c cs)
  from Cons.prems have F: "take (length pat) (c # cs) \<noteq> pat"
    by (auto split: if_splits)
  with Cons.prems obtain j' where j': "find_sub pat cs = Some j'" "j = Suc j'"
    by auto
  show ?case
  proof (cases i)
    case 0
    with F show ?thesis by (simp add: occurs_at_0)
  next
    case (Suc i')
    with Cons.prems j' have "i' < j'" by simp
    from Cons.IH [OF j'(1) this] Suc show ?thesis by (simp add: occurs_at_Cons)
  qed
qed

lemma find_sub_None: "find_sub pat s = None \<Longrightarrow> \<not> occurs_at pat s i"
proof (induction s arbitrary: i)
  case Nil
  then show ?case by (simp add: occurs_at_def split: if_splits)
next
  case (Cons c cs)
  from Cons.prems have F: "take (length pat) (c # cs) \<noteq> pat" and N: "find_sub pat cs = None"
    by (auto split: if_splits)
  show ?case
  proof (cases i)
    case 0
    with F show ?thesis by (simp add: occurs_at_0)
  next
    case (Suc i')
    from Cons.IH [OF N, of i'] Suc show ?thesis by (simp add: occurs_at_Cons)
  qed
qed

lemma lazy_match_iff:
  "lazy_match opn cls s a b =
     (occurs_at opn s a \<and> a + length opn + length cls \<le> b
      \<and> occurs_at cls s (b - length cls)
      \<and> (\<forall>j \<in> {a + length opn ..< b - length cls}. \<not> occurs_at cls s j))"
  by (simp add: lazy_match_def list_all_iff)

lemma no_match_between_iff:
  "no_match_between opn cls s lo hi =
     (\<forall>a \<in> {lo ..< hi}. \<forall>b \<in> {a .. length s}. \<not> lazy_match opn cls s a b)"
  unfolding no_match_between_def list_all_iff set_upt atLeastLessThanSuc_atLeastAtMost ..

lemma occurs_at_drop: "occurs_at pat (drop k s) i = occurs_at pat s (k + i)" if "k \<le> length s"
  using that by (auto simp: occurs_at_def add.commute)

lemma lazy_match_bounds: "lazy_match opn cls s a b \<Longrightarrow> a \<le> b \<and> b \<le> length s"
  by (auto simp: lazy_match_iff occurs_at_def)

lemma no_match_between_step:
  assumes "no_match_between opn cls s (Suc k) hi" and "\<And>b. \<not> lazy_match opn cls s k b"
  shows "no_match_between opn cls s k hi"
  unfolding no_match_between_iff
proof (intro ballI)
  fix a b assume a: "a \<in> {k ..< hi}" and b: "b \<in> {a .. length s}"
  show "\<not> lazy_match opn cls s a b"
  proof (cases "a = k")
    case True
    with assms(2) show ?thesis by simp
  next
    case False
    with a have "a \<in> {Suc k ..< hi}" by simp
    with assms(1) b show ?thesis by (simp add: no_match_between_iff)
  qed
qed

lemma all_matches_from_step:
  assumes "all_matches_from opn cls s (Suc k) L" and "\<And>b. \<not> lazy_match opn cls s k b"
  shows "all_matches_from opn cls s k L"
proof (cases L)
  case Nil
  with assms show ?thesis by (simp add: no_match_between_step)
next
  case (Cons ab rest)
  obtain a b where ab: "ab = (a, b)" by (cases ab)
  from assms(1) Cons ab have "Suc k \<le> a" "lazy_match opn cls s a b"
    "no_match_between opn cls s (Suc k) a" "all_matches_from opn cls s b rest"
    by simp_all
  with assms(2) Cons ab show ?thesis by (simp add: no_match_between_step)
qed

lemma finditer_from_all:
  assumes "opn \<noteq> []" and "text = pre @ s" and "k = length pre"
  shows "all_matches_from opn cls text k (finditer_from opn cls k s)"
  using assms
proof (induction opn cls k s arbitrary: pre rule: finditer_from.induct)
  case (1 opn cls k)
  then have k: "k = length text" by simp
  have "\<not> lazy_match opn cls text a b" if "a \<in> {k ..< Suc (length text)}" for a b
    using that k "1.prems"(1) by (auto simp: lazy_match_iff occurs_at_def)
  then show ?case by (simp add: no_match_between_iff)
next
  case (2 opn cls k c cs)
  have step: "text = (pre @ [c]) @ cs" "Suc k = length (pre @ [c])"
    using "2.prems" by simp_all
  have kl: "k \<le> length text" using "2.prems" by simp
  have d: "drop k text = c # cs" using "2.prems" by simp
  have occ: "occurs_at pat (c # cs) i = occurs_at pat text (k + i)" for pat i
    using occurs_at_drop [OF kl, of pat i] d by simp
  show ?case
  proof (cases "take (length opn) (c # cs) = opn")
    case False
    then have "\<not> occurs_at opn text k"
      using occ [of opn 0] by (simp add: occurs_at_0)
    then have nm: "\<not> lazy_match opn cls text k b" for b
      by (simp add: lazy_match_iff)
    from "2.IH"(3) [OF False "2.prems"(1) step]
    have "all_matches_from opn cls text (Suc k) (finditer_from opn cls (Suc k) cs)" .
    from all_matches_from_step [OF this nm] False show ?thesis by simp
  next
    case True
    show ?thesis
    proof (cases "find_sub cls (drop (length opn) (c # cs))")
      case None
      have nm: "\<not> lazy_match opn cls text k b" for b
      proof
        assume m: "lazy_match opn cls text k b"
        then have le: "k + length opn + length cls \<le> b" and o: "occurs_at cls text (b - length cls)"
          by (simp_all add: lazy_match_iff)
        define i where "i = b - length cls - k - length opn"
        have "b - length cls = k + (length opn + i)" using le by (simp add: i_def)
        with o have "occurs_at cls (c # cs) (length opn + i)" by (simp add: occ)
        moreover have "length opn \<le> length (c # cs)"
          using True occurs_at_0 [of opn "c # cs"] by (simp add: occurs_at_def)
        ultimately have "occurs_at cls (drop (length opn) (c # cs)) i"
          by (simp add: occurs_at_drop)
        with find_sub_None [OF None] show False by blast
      qed
      from "2.IH"(1) [OF True None "2.prems"(1) step]
      have "all_matches_from opn cls text (Suc k) (finditer_from opn cls (Suc k) cs)" .
      from all_matches_from_step [OF this nm] True None show ?thesis by simp
    next
      case (Some j)
      define n where "n = length opn + j + length cls"
      have ob: "length opn \<le> length (c # cs)"
        using True occurs_at_0 [of opn "c # cs"] by (simp add: occurs_at_def)
      from find_sub_Some [OF Some] have jb: "j + length cls \<le> length (c # cs) - length opn"
        by simp
      from "2.prems"(1) have n0: "0 < n" by (simp add: n_def)
      from jb ob have nb: "n \<le> length (c # cs)" by (simp add: n_def)
      have dr: "drop (n - 1) cs = drop n (c # cs)"
        using n0 by (cases n) simp_all
      have t: "text = (pre @ take n (c # cs)) @ drop (n - 1) cs"
        using "2.prems"(2) dr by simp
      have l: "k + n = length (pre @ take n (c # cs))"
        using "2.prems"(3) nb by simp
      from "2.IH"(2) [OF True Some n_def "2.prems"(1) t l]
      have rest: "all_matches_from opn cls text (k + n) (finditer_from opn cls (k + n) (drop (n - 1) cs))" .
      have o1: "occurs_at opn text k"
        using True occ [of opn 0] by (simp add: occurs_at_0)
      have cl: "occurs_at cls (c # cs) (length opn + i) = occurs_at cls (drop (length opn) (c # cs)) i" for i
        using ob by (simp add: occurs_at_drop)
      have o2: "occurs_at cls text (k + n - length cls)"
      proof -
        have "k + n - length cls = k + (length opn + j)" by (simp add: n_def)
        then show ?thesis
          using find_sub_occurs [OF Some] by (simp add: occ [symmetric] cl)
      qed
      have o3: "\<not> occurs_at cls text i" if "i \<in> {k + length opn ..< k + n - length cls}" for i
      proof -
        define i' where "i' = i - k - length opn"
        from that have "k + length opn \<le> i" "i < k + (length opn + j)"
          by (simp_all add: n_def)
        then have i: "i = k + (length opn + i')" and lt: "i' < j"
          unfolding i'_def by arith+
        from find_sub_least [OF Some lt] show ?thesis
          unfolding i by (simp add: occ [symmetric] cl)
      qed
      have m: "lazy_match opn cls text k (k + n)"
        unfolding lazy_match_iff using o1 o2 o3 by (simp add: n_def)
      have "no_match_between opn cls text k k"
        by (simp add: no_match_between_iff)
      with m rest True Some show ?thesis
        by (simp add: n_def Let_def)
    qed
  qed
qed

lemma lazy_match_end_unique:
  assumes "lazy_match opn cls s a b" and "lazy_match opn cls s a b'"
  shows "b = b'"
proof (rule ccontr)
  assume ne: "b \<noteq> b'"
  have aux: False if m: "lazy_match opn cls s a x" and m': "lazy_match opn cls s a y" and lt: "x < y" for x y
  proof -
    from m have "a + length opn + length cls \<le> x" and o: "occurs_at cls s (x - length cls)"
      by (simp_all add: lazy_match_iff)
    with lt have "x - length cls \<in> {a + length opn ..< y - length cls}" by auto
    with m' o show False by (simp add: lazy_match_iff)
  qed
  from ne have "b < b' \<or> b' < b" by auto
  with aux assms show False by blast
qed

lemma all_matches_from_unique:
  "all_matches_from opn cls s pos L \<Longrightarrow> all_matches_from opn cls s pos L' \<Longrightarrow> L = L'"
proof (induction L arbitrary: pos L')
  case Nil
  show ?case
  proof (cases L')
    case Nil
    then show ?thesis by simp
  next
    case (Cons ab rest)
    obtain a b where ab: "ab = (a, b)" by (cases ab)
    from Nil.prems(2) Cons ab have p: "pos \<le> a" and m: "lazy_match opn cls s a b" by simp_all
    from lazy_match_bounds [OF m] p have "a \<in> {pos ..< Suc (length s)}" "b \<in> {a .. length s}"
      by simp_all
    with Nil.prems(1) m show ?thesis by (simp add: no_match_between_iff)
  qed
next
  case (Cons ab rest)
  obtain a b where ab: "ab = (a, b)" by (cases ab)
  from Cons.prems(1) ab have p: "pos \<le> a" and m: "lazy_match opn cls s a b"
    and n: "no_match_between opn cls s pos a" and r: "all_matches_from opn cls s b rest"
    by simp_all
  show ?case
  proof (cases L')
    case Nil
    from lazy_match_bounds [OF m] p have "a \<in> {pos ..< Suc (length s)}" "b \<in> {a .. length s}"
      by simp_all
    with Cons.prems(2) Nil m show ?thesis by (simp add: no_match_between_iff)
  next
    case (Cons ab' rest')
    obtain a' b' where ab': "ab' = (a', b')" by (cases ab')
    from Cons.prems(2) Cons ab' have p': "pos \<le> a'" and m': "lazy_match opn cls s a' b'"
      and n': "no_match_between opn cls s pos a'" and r': "all_matches_from opn cls s b' rest'"
      by simp_all
    have "\<not> a < a'"
    proof
      assume "a < a'"
      with p lazy_match_bounds [OF m] have "a \<in> {pos ..< a'}" "b \<in> {a .. length s}" by simp_all
      with n' m show False by (simp add: no_match_between_iff)
    qed
    moreover have "\<not> a' < a"
    proof
      assume "a' < a"
      with p' lazy_match_bounds [OF m'] have "a' \<in> {pos ..< a}" "b' \<in> {a' .. length s}" by simp_all
      with n m' show False by (simp add: no_match_between_iff)
    qed
    ultimately have a: "a = a'" by simp
    with m m' have b: "b = b'" using lazy_match_end_unique by blast
    from Cons.IH [OF r r' [folded b]] have "rest = rest'" .
    with a b ab ab' Cons show ?thesis by simp
  qed
qed

lemma pattern_samples_span:
  "map span (pattern_samples text pat) = finditer_from (fst pat) (snd pat) 0 text"
  by (simp add: pattern_samples_def span_def comp_def case_prod_beta)

text \<open>
  C9. The three patterns are searched independently on the whole text and their samples
  are concatenated, so overlapping matches of different patterns are all kept. For each
  pattern there is one sample per match: the offsets of its samples are exactly the
  matches that a search from left to right finds, the leftmost lazy match first and then
  always the leftmost one that starts at or behind the end of the match before, until no
  match is left; no other list of offsets has this property. Every sample carries the
  matched substring with its start and end offsets; the substring begins with the
  opening delimiter, ends with the closing one, and that closing delimiter is the first
  one behind the opening delimiter. On "see $x^2$ here" the result is the one sample
  "$x^2$" from 4 to 9, and on "$a$ and $b$" there are the two samples "$a$" and "$b$".
\<close>

theorem extract_math_expressions_spec:
  "extract_math_expressions text =
      pattern_samples text (''$'', ''$'')
      @ pattern_samples text ([CHR 0x5C, CHR ''(''], [CHR 0x5C, CHR '')''])
      @ pattern_samples text ([CHR 0x5C, CHR ''[''], [CHR 0x5C, CHR '']''])
   \<and> (\<forall>pat \<in> set math_patterns.
        all_matches_from (fst pat) (snd pat) text 0 (map span (pattern_samples text pat))
        \<and> (\<forall>L. all_matches_from (fst pat) (snd pat) text 0 L
                \<longrightarrow> L = map span (pattern_samples text pat)))
   \<and> (\<forall>pat \<in> set math_patterns. \<forall>m \<in> set (pattern_samples text pat).
        ms_start m + length (fst pat) + length (snd pat) \<le> ms_end m
        \<and> ms_end m \<le> length text
        \<and> ms_content m = take (ms_end m - ms_start m) (drop (ms_start m) text)
        \<and> take (length (fst pat)) (ms_content m) = fst pat
        \<and> endswith (ms_content m) (snd pat)
        \<and> find_sub (snd pat) (drop (length (fst pat)) (ms_content m))
            = Some (length (ms_content m) - length (fst pat) - length (snd pat)))
   \<and> extract_math_expressions ''see $x^2$ here''
        = [\<lparr>ms_content = ''$x^2$'', ms_start = 4, ms_end = 9\<rparr>]
   \<and> extract_math_expressions two_text
        = [\<lparr>ms_content = ''$a$'', ms_start = 0, ms_end = 3\<rparr>,
           \<lparr>ms_content = ''$b$'', ms_start = 8, ms_end = 11\<rparr>]"
proof -
  have 1: "extract_math_expressions text =
      pattern_samples text (''$'', ''$'')
      @ pattern_samples text ([CHR 0x5C, CHR ''(''], [CHR 0x5C, CHR '')''])
      @ pattern_samples text ([CHR 0x5C, CHR ''[''], [CHR 0x5C, CHR '']''])"
    by (simp add: extract_math_expressions_def math_patterns_def)
  have 2: "all_matches_from (fst pat) (snd pat) text 0 (map span (pattern_samples text pat))
        \<and> (\<forall>L. all_matches_from (fst pat) (snd pat) text 0 L
                \<longrightarrow> L = map span (pattern_samples text pat))"
    if pat: "pat \<in> set math_patterns" for pat
  proof -
    from pat have ne: "fst pat \<noteq> []"
      by (auto simp: math_patterns_def)
    have "text = [] @ text" "0 = length ([] :: string)" by simp_all
    from finditer_from_all [OF ne this]
    have a: "all_matches_from (fst pat) (snd pat) text 0 (map span (pattern_samples text pat))"
      by (simp add: pattern_samples_span)
    from a all_matches_from_unique [OF _ a] show ?thesis by blast
  qed
  have 3: "ms_start m + length (fst pat) + length (snd pat) \<le> ms_end m
        \<and> ms_end m \<le> length text
        \<and> ms_content m = take (ms_end m - ms_start m) (drop (ms_start m) text)
        \<and> take (length (fst pat)) (ms_content m) = fst pat
        \<and> endswith (ms_content m) (snd pat)
        \<and> find_sub (snd pat) (drop (length (fst pat)) (ms_content m))
            = Some (length (ms_content m) - length (fst pat) - length (snd pat))"
    if pat: "pat \<in> set math_patterns" and m: "m \<in> set (pattern_samples text pat)" for pat m
  proof -
    from pat have ne: "fst pat \<noteq> []"
      by (auto simp: math_patterns_def)
    from m obtain a b where ab: "(a, b) \<in> set (finditer_from (fst pat) (snd pat) 0 text)"
      and md: "m = \<lparr>ms_content = take (b - a) (drop a text), ms_start = a, ms_end = b\<rparr>"
      by (auto simp: pattern_samples_def)
    from match_content [OF ne ab] show ?thesis
      by (simp add: md)
  qed
  have 4: "extract_math_expressions ''see $x^2$ here''
        = [\<lparr>ms_content = ''$x^2$'', ms_start = 4, ms_end = 9\<rparr>]"
    by code_simp
  have 5: "extract_math_expressions two_text
        = [\<lparr>ms_content = ''$a$'', ms_start = 0, ms_end = 3\<rparr>,
           \<lparr>ms_content = ''$b$'', ms_start = 8, ms_end = 11\<rparr>]"
    by code_simp
  from 2 have 2: "\<forall>pat \<in> set math_patterns.
        all_matches_from (fst pat) (snd pat) text 0 (map span (pattern_samples text pat))
        \<and> (\<forall>L. all_matches_from (fst pat) (snd pat) text 0 L
                \<longrightarrow> L = map span (pattern_samples text pat))"
    by blast
  from 3 have 3: "\<forall>pat \<in> set math_patterns. \<forall>m \<in> set (pattern_samples text pat).
        ms_start m + length (fst pat) + length (snd pat) \<le> ms_end m
        \<and> ms_end m \<le> length text
        \<and> ms_content m = take (ms_end m - ms_start m) (drop (ms_start m) text)
        \<and> take (length (fst pat)) (ms_content m) = fst pat
        \<and> endswith (ms_content m) (snd pat)
        \<and> find_sub (snd pat) (drop (length (fst pat)) (ms_content m))
            = Some (length (ms_content m) - length (fst pat) - length (snd pat))"
    by blast
  show ?thesis
    by (rule conjI [OF 1 conjI [OF 2 conjI [OF 3 conjI [OF 4 5]]]])
qed

text \<open>
  On \<open>$a$ and $b$\<close> the matches of the first pattern are the two from 0 to 3 and from 8
  to 11, so these are the offsets of its samples; on \<open>$\(a\)$\<close> the first pattern gives
  the whole text and the second one the inner expression.
\<close>

theorem extract_math_expressions_spec_witness:
  "(''$'', ''$'') \<in> set math_patterns
   \<and> all_matches_from ''$'' ''$'' two_text 0 [(0, 3), (8, 11)]
   \<and> map span (pattern_samples two_text (''$'', ''$'')) = [(0, 3), (8, 11)]
   \<and> \<lparr>ms_content = overlap_text, ms_start = 0, ms_end = 7\<rparr>
        \<in> set (pattern_samples overlap_text (''$'', ''$''))
   \<and> extract_math_expressions overlap_text =
        [\<lparr>ms_content = overlap_text, ms_start = 0, ms_end = 7\<rparr>,
         \<lparr>ms_content = [CHR 0x5C, CHR ''('', CHR ''a'', CHR 0x5C, CHR '')''],
            ms_start = 1, ms_end = 6\<rparr>]
   \<and> endswith overlap_text ''$''
   \<and> find_sub ''$'' (drop 1 overlap_text) = Some 5"
proof -
  let ?m = "\<lparr>ms_content = overlap_text, ms_start = 0, ms_end = 7\<rparr>"
  have p: "(''$'', ''$'') \<in> set math_patterns"
    by (simp add: math_patterns_def)
  have c: "all_matches_from ''$'' ''$'' two_text 0 [(0, 3), (8, 11)]"
    by code_simp
  have m: "?m \<in> set (pattern_samples overlap_text (''$'', ''$''))"
    by code_simp
  have l: "length overlap_text = 7"
    by (simp add: overlap_text_def)
  have e: "extract_math_expressions overlap_text =
        [?m, \<lparr>ms_content = [CHR 0x5C, CHR ''('', CHR ''a'', CHR 0x5C, CHR '')''],
            ms_start = 1, ms_end = 6\<rparr>]"
    by code_simp
  note s2 = extract_math_expressions_spec [of two_text, THEN conjunct2, THEN conjunct1]
  from bspec [OF s2 p] c
  have u: "map span (pattern_samples two_text (''$'', ''$'')) = [(0, 3), (8, 11)]"
    by (simp del: all_matches_from.simps)
  note s3 = extract_math_expressions_spec [of overlap_text, THEN conjunct2, THEN conjunct2,
                                           THEN conjunct1]
  from bspec [OF bspec [OF s3 p] m]
  have "endswith overlap_text ''$''" "find_sub ''$'' (drop 1 overlap_text) = Some 5"
    using l by simp_all
  with p c u m e show ?thesis
    by (simp only: simp_thms)
qed

section \<open>Properties of the sentiment aggregation\<close>

text \<open>
  C5. For every list of per-chunk results: no result gives NEUTRAL with score 0.5;
  otherwise the label is the class with more votes, a tie going to the class with the
  higher summed confidence (POSITIVE when the sums are equal too); the score is the
  winning class's summed confidence divided by the number of all results, and the two
  ratios are the vote counts divided by the number of all results. \<open>analyze_sentiment\<close>
  returns this aggregate of the results of its chunks, and the neutral result for a
  text without sentences.
\<close>

theorem analyze_sentiment_spec:
  fixes ops :: "('f::linorder) float_ops" and env :: "'f analyzer"
  shows "aggregate_sentiment ops [] = Inr (neutral_result ops)
   \<and> (results \<noteq> [] \<longrightarrow>
        (let pos = filter (\<lambda>r. fst r = ''POSITIVE'') results;
             neg = filter (\<lambda>r. fst r = ''NEGATIVE'') results;
             ps = py_sum ops (map snd pos);
             ns = py_sum ops (map snd neg);
             n = f_int ops (int (length results));
             positive_wins = (length pos > length neg \<or> (length pos = length neg \<and> ps \<ge> ns))
         in aggregate_sentiment ops results =
              Inr \<lparr>sr_label = (if positive_wins then ''POSITIVE'' else ''NEGATIVE''),
                   sr_score = f_div ops (if positive_wins then ps else ns) n,
                   sr_positive_ratio = Some (f_div ops (f_int ops (int (length pos))) n),
                   sr_negative_ratio = Some (f_div ops (f_int ops (int (length neg))) n),
                   sr_error = None\<rparr>))
   \<and> (sentiment_pipeline env = Inr model
        \<and> classify_chunks model (make_chunks (sent_tokenize env text)) = Inr results
        \<longrightarrow> aggregate_sentiment (fops env) results = Inr (analyze_sentiment env text))
   \<and> (sentiment_pipeline env = Inr model \<and> sent_tokenize env text = []
        \<longrightarrow> analyze_sentiment env text = neutral_result (fops env))"
proof (intro conjI impI)
  show "aggregate_sentiment ops [] = Inr (neutral_result ops)"
    by (simp add: aggregate_sentiment_def neutral_result_def)
next
  assume ne: "results \<noteq> []"
  then have n0: "int (length results) \<noteq> 0" by simp
  show "let pos = filter (\<lambda>r. fst r = ''POSITIVE'') results;
             neg = filter (\<lambda>r. fst r = ''NEGATIVE'') results;
             ps = py_sum ops (map snd pos);
             ns = py_sum ops (map snd neg);
             n = f_int ops (int (length results));
             positive_wins = (length pos > length neg \<or> (length pos = length neg \<and> ps \<ge> ns))
         in aggregate_sentiment ops results =
              Inr \<lparr>sr_label = (if positive_wins then ''POSITIVE'' else ''NEGATIVE''),
                   sr_score = f_div ops (if positive_wins then ps else ns) n,
                   sr_positive_ratio = Some (f_div ops (f_int ops (int (length pos))) n),
                   sr_negative_ratio = Some (f_div ops (f_int ops (int (length neg))) n),
                   sr_error = None\<rparr>"
    using ne n0 unfolding aggregate_sentiment_def Let_def fdiv_int_def truediv_def and_then_def
    by (auto simp: not_less)
next
  assume "sentiment_pipeline env = Inr model
        \<and> classify_chunks model (make_chunks (sent_tokenize env text)) = Inr results"
  moreover have "\<exists>r. aggregate_sentiment (fops env) results = Inr r"
    unfolding aggregate_sentiment_def Let_def fdiv_int_def truediv_def and_then_def
    by (cases "results = []") (auto split: prod.splits)
  ultimately show "aggregate_sentiment (fops env) results = Inr (analyze_sentiment env text)"
    by (auto simp: analyze_sentiment_def and_then_def)
next
  assume "sentiment_pipeline env = Inr model \<and> sent_tokenize env text = []"
  then show "analyze_sentiment env text = neutral_result (fops env)"
    by (simp add: analyze_sentiment_def make_chunks_def and_then_def aggregate_sentiment_def
        neutral_result_def)
qed

theorem analyze_sentiment_spec_witness:
  "sample_results \<noteq> []
   \<and> aggregate_sentiment exact_ops sample_results =
       Inr \<lparr>sr_label = ''POSITIVE'', sr_score = 1 / 2,
            sr_positive_ratio = Some (2 / 3), sr_negative_ratio = Some (1 / 3),
            sr_error = None\<rparr>"
proof -
  have ne: "sample_results \<noteq> []"
    by (simp add: sample_results_def)
  have p: "filter (\<lambda>r. fst r = ''POSITIVE'') sample_results = [(''POSITIVE'', 9 / 10), (''POSITIVE'', 6 / 10)]"
    and n: "filter (\<lambda>r. fst r = ''NEGATIVE'') sample_results = [(''NEGATIVE'', 8 / 10)]"
    by (simp_all add: sample_results_def)
  have l: "length sample_results = 3"
    by (simp add: sample_results_def)
  from analyze_sentiment_spec [of exact_ops sample_results] ne
  show ?thesis
    unfolding Let_def p n l by (simp add: py_sum_def exact_ops_def)
qed

section \<open>Properties of the readability metrics\<close>

lemma syllable_loop_sums:
  "syllable_loop words a b = (a + total_syllables words, b + complex_word_count words)"
  by (induction words arbitrary: a b)
     (simp_all add: total_syllables_def complex_word_count_def Let_def)

text \<open>
  What the function computes, over the tokens with at least one letter: with no such
  word or no sentence the early return gives the three metrics at zero, without the two
  averages, and nothing is divided; otherwise the Flesch reading ease and the
  Flesch-Kincaid grade are the two formulas over words per sentence and syllables per
  word, the complex word ratio is the share of words with three or more syllables, and
  the two averages are reported, the ratio rounded to 3 decimals and the rest to 2. No
  call raises.
\<close>

lemma calculate_readability_formulas:
  "calculate_readability env text =
     (let ops = fops env;
          words = readability_words env text;
          sentences = sent_tokenize env text;
          W = f_int ops (int (length words));
          S = f_int ops (int (length sentences));
          wps = f_div ops W S;
          spw = f_div ops (f_int ops (total_syllables words)) W
      in if words = [] \<or> sentences = [] then
           Inr \<lparr>flesch_reading_ease = f_int ops 0, flesch_kincaid_grade = f_int ops 0,
                complex_word_ratio = f_int ops 0,
                avg_words_per_sentence = None, avg_syllables_per_word = None\<rparr>
         else
           Inr \<lparr>flesch_reading_ease =
                  f_round ops (f_sub ops (f_sub ops (f_lit ops 206.835)
                                            (f_mul ops (f_lit ops 1.015) wps))
                                 (f_mul ops (f_lit ops 84.6) spw)) 2,
                flesch_kincaid_grade =
                  f_round ops (f_sub ops (f_add ops (f_mul ops (f_lit ops 0.39) wps)
                                            (f_mul ops (f_lit ops 11.8) spw))
                                 (f_lit ops 15.59)) 2,
                complex_word_ratio =
                  f_round ops (f_div ops (f_int ops (complex_word_count words)) W) 3,
                avg_words_per_sentence = Some (f_round ops wps 2),
                avg_syllables_per_word = Some (f_round ops spw 2)\<rparr>)"
proof (cases "readability_words env text = [] \<or> sent_tokenize env text = []")
  case True
  then show ?thesis
    unfolding calculate_readability_def readability_words_def Let_def by auto
next
  case False
  then have W: "int (length (readability_words env text)) \<noteq> 0"
    and S: "int (length (sent_tokenize env text)) \<noteq> 0"
    by simp_all
  show ?thesis
    using False W S
    unfolding calculate_readability_def Let_def syllable_loop_sums
      readability_words_def [symmetric] truediv_def and_then_def
    by (simp add: readability_words_def)
qed

text \<open>
  C7. For a text with sentences and words the five metrics are the rounded formulas
  ("The dog ate bananas. It ran." gives 90.99, 1.31, 0.167, 3 and 1.33). For a text
  without words the early return leaves the two averages out of the result: the empty
  text and the text "12 34." give the three metrics at zero and neither
  \<open>avg_words_per_sentence\<close> nor \<open>avg_syllables_per_word\<close>, although the final return
  guards both averages with \<open>else 0\<close>.
\<close>

theorem calculate_readability_zero_case:
  "calculate_readability demo_env ''The dog ate bananas. It ran.'' =
     Inr \<lparr>flesch_reading_ease = 90.99, flesch_kincaid_grade = 1.31,
          complex_word_ratio = 0.167,
          avg_words_per_sentence = Some 3, avg_syllables_per_word = Some 1.33\<rparr>
   \<and> calculate_readability demo_env '''' =
     Inr \<lparr>flesch_reading_ease = 0, flesch_kincaid_grade = 0, complex_word_ratio = 0,
          avg_words_per_sentence = None, avg_syllables_per_word = None\<rparr>
   \<and> sent_tokenize demo_env ''12 34.'' = [''12 34.'']
   \<and> word_tokenize demo_env ''12 34.'' = [''12'', ''34'', ''.'']
   \<and> calculate_readability demo_env ''12 34.'' =
     Inr \<lparr>flesch_reading_ease = 0, flesch_kincaid_grade = 0, complex_word_ratio = 0,
          avg_words_per_sentence = None, avg_syllables_per_word = None\<rparr>"
proof -
  have w: "readability_words demo_env ''The dog ate bananas. It ran.''
             = [''The'', ''dog'', ''ate'', ''bananas'', ''It'', ''ran'']"
    by code_simp
  have s: "sent_tokenize demo_env ''The dog ate bananas. It ran.''
             = [''The dog ate bananas.'', ''It ran.'']"
    by code_simp
  have t: "total_syllables [''The'', ''dog'', ''ate'', ''bananas'', ''It'', ''ran''] = 8"
    by code_simp
  have c: "complex_word_count [''The'', ''dog'', ''ate'', ''bananas'', ''It'', ''ran''] = 1"
    by code_simp
  have o: "fops demo_env = exact_ops"
    by (simp add: demo_env_def)
  have r: "round_half_even (9099 / 100) 2 = 9099 / 100" "round_half_even (197 / 150) 2 = 131 / 100"
    "round_half_even (1 / 6) 3 = 167 / 1000" "round_half_even 3 2 = 3" "round_half_even (4 / 3) 2 = 133 / 100"
    by code_simp+
  have w0: "readability_words demo_env '''' = []" "readability_words demo_env ''12 34.'' = []"
    by code_simp+
  have 1: "calculate_readability demo_env ''The dog ate bananas. It ran.'' =
     Inr \<lparr>flesch_reading_ease = 90.99, flesch_kincaid_grade = 1.31,
          complex_word_ratio = 0.167,
          avg_words_per_sentence = Some 3, avg_syllables_per_word = Some 1.33\<rparr>"
    using calculate_readability_formulas [of demo_env "''The dog ate bananas. It ran.''"]
    unfolding Let_def w s t c o by (simp add: exact_ops_def r)
  have 2: "calculate_readability demo_env '''' =
     Inr \<lparr>flesch_reading_ease = 0, flesch_kincaid_grade = 0, complex_word_ratio = 0,
          avg_words_per_sentence = None, avg_syllables_per_word = None\<rparr>"
    using calculate_readability_formulas [of demo_env "''''"]
    unfolding Let_def w0 o by (simp add: exact_ops_def)
  have 3: "sent_tokenize demo_env ''12 34.'' = [''12 34.'']"
    by code_simp
  have 4: "word_tokenize demo_env ''12 34.'' = [''12'', ''34'', ''.'']"
    by code_simp
  have 5: "calculate_readability demo_env ''12 34.'' =
     Inr \<lparr>flesch_reading_ease = 0, flesch_kincaid_grade = 0, complex_word_ratio = 0,
          avg_words_per_sentence = None, avg_syllables_per_word = None\<rparr>"
    using calculate_readability_formulas [of demo_env "''12 34.''"]
    unfolding Let_def w0 o by (simp add: exact_ops_def)
  from 1 2 3 4 5 show ?thesis by (simp only: simp_thms)
qed

section \<open>Properties of the analysis\<close>

lemma calculate_readability_total: "\<exists>r. calculate_readability env text = Inr r"
  unfolding calculate_readability_def Let_def truediv_def and_then_def
  by (auto split: prod.splits)

lemma analyze_blank:
  "blank text \<Longrightarrow> analyze env text oa =
     Inr (empty_result\<lparr>ar_error := Some ''Empty text provided for analysis''\<rparr>)"
  by (simp add: analyze_def blank_def)

lemma analyze_fields:
  assumes nb: "\<not> blank text" and res: "analyze env text oa = Inr r"
  shows "ar_error r = None"
    and "ar_text_length r = Some (length text)"
    and "ar_word_count r = Some (length (word_tokenize env text))"
    and "ar_sentence_count r = Some (length (sent_tokenize env text))"
    and "ar_keywords r = (if option_enabled oa ''keywords''
           then (case extract_keywords env text 10 of Inr k \<Rightarrow> Some k | Inl e \<Rightarrow> None) else None)"
    and "option_enabled oa ''keywords'' \<longrightarrow> (\<exists>k. extract_keywords env text 10 = Inr k)"
    and "ar_entities r = (if option_enabled oa ''entities''
           then (case extract_entities env text of Inr k \<Rightarrow> Some k | Inl e \<Rightarrow> None) else None)"
    and "option_enabled oa ''entities'' \<longrightarrow> (\<exists>k. extract_entities env text = Inr k)"
    and "ar_summary r = (if option_enabled oa ''summary'' then Some (summarize env text 150 40) else None)"
    and "ar_topics r = (if option_enabled oa ''topics'' then Some (extract_topics env text 3) else None)"
    and "ar_sentiment r = (if option_enabled oa ''sentiment'' then Some (analyze_sentiment env text) else None)"
    and "ar_readability r = (if option_enabled oa ''readability''
           then (case calculate_readability env text of Inr k \<Rightarrow> Some k | Inl e \<Rightarrow> None) else None)"
proof -
  obtain rd where rd: "calculate_readability env text = Inr rd"
    using calculate_readability_total by blast
  define opts where "opts = (case oa of None \<Rightarrow> default_options | Some opts \<Rightarrow> opts)"
  have en: "option_enabled oa key = get_option opts key (key \<noteq> ''sentiment'')" for key
    by (simp add: option_enabled_def opts_def)
  have en6: "get_option opts ''keywords'' True = option_enabled oa ''keywords''"
    "get_option opts ''entities'' True = option_enabled oa ''entities''"
    "get_option opts ''summary'' True = option_enabled oa ''summary''"
    "get_option opts ''topics'' True = option_enabled oa ''topics''"
    "get_option opts ''sentiment'' False = option_enabled oa ''sentiment''"
    "get_option opts ''readability'' True = option_enabled oa ''readability''"
    by (simp_all add: en)
  note a = res [unfolded analyze_def Let_def opts_def [symmetric] en6 rd, simplified nb [unfolded blank_def] if_False]
  show "ar_error r = None"
    using a by (auto simp: and_then_def Let_def empty_result_def split: sum.splits if_splits)
  show "ar_text_length r = Some (length text)"
    using a by (auto simp: and_then_def Let_def empty_result_def split: sum.splits if_splits)
  show "ar_word_count r = Some (length (word_tokenize env text))"
    using a by (auto simp: and_then_def Let_def empty_result_def split: sum.splits if_splits)
  show "ar_sentence_count r = Some (length (sent_tokenize env text))"
    using a by (auto simp: and_then_def Let_def empty_result_def split: sum.splits if_splits)
  show "ar_keywords r = (if option_enabled oa ''keywords''
           then (case extract_keywords env text 10 of Inr k \<Rightarrow> Some k | Inl e \<Rightarrow> None) else None)"
    using a by (auto simp: and_then_def Let_def empty_result_def split: sum.splits if_splits)
  show "option_enabled oa ''keywords'' \<longrightarrow> (\<exists>k. extract_keywords env text 10 = Inr k)"
    using a by (auto simp: and_then_def Let_def empty_result_def split: sum.splits if_splits)
  show "ar_entities r = (if option_enabled oa ''entities''
           then (case extract_entities env text of Inr k \<Rightarrow> Some k | Inl e \<Rightarrow> None) else None)"
    using a by (auto simp: and_then_def Let_def empty_result_def split: sum.splits if_splits)
  show "option_enabled oa ''entities'' \<longrightarrow> (\<exists>k. extract_entities env text = Inr k)"
    using a by (auto simp: and_then_def Let_def empty_result_def split: sum.splits if_splits)
  show "ar_summary r = (if option_enabled oa ''summary'' then Some (summarize env text 150 40) else None)"
    using a by (auto simp: and_then_def Let_def empty_result_def split: sum.splits if_splits)
  show "ar_topics r = (if option_enabled oa ''topics'' then Some (extract_topics env text 3) else None)"
    using a by (auto simp: and_then_def Let_def empty_result_def split: sum.splits if_splits)
  show "ar_sentiment r = (if option_enabled oa ''sentiment'' then Some (analyze_sentiment env text) else None)"
    using a by (auto simp: and_then_def Let_def empty_result_def split: sum.splits if_splits)
  show "ar_readability r = (if option_enabled oa ''readability''
           then (case calculate_readability env text of Inr k \<Rightarrow> Some k | Inl e \<Rightarrow> None) else None)"
    using a rd by (auto simp: and_then_def Let_def empty_result_def split: sum.splits if_splits)
qed

lemma analyze_total:
  assumes "\<not> blank text"
    and "option_enabled oa ''keywords'' \<longrightarrow> (\<exists>k. extract_keywords env text 10 = Inr k)"
    and "option_enabled oa ''entities'' \<longrightarrow> (\<exists>k. extract_entities env text = Inr k)"
  shows "\<exists>r. analyze env text oa = Inr r"
proof -
  obtain rd where rd: "calculate_readability env text = Inr rd"
    using calculate_readability_total by blast
  define opts where "opts = (case oa of None \<Rightarrow> default_options | Some opts \<Rightarrow> opts)"
  have en: "get_option opts ''keywords'' True = option_enabled oa ''keywords''"
    "get_option opts ''entities'' True = option_enabled oa ''entities''"
    by (simp_all add: option_enabled_def opts_def)
  show ?thesis
    using assms unfolding analyze_def blank_def Let_def opts_def [symmetric] en rd
    by (auto simp: and_then_def)
qed

lemma result_keys_analyze:
  assumes "\<not> blank text" and "analyze env text oa = Inr r"
  shows "result_keys r = base_keys \<union> {key \<in> optional_keys. option_enabled oa key}"
proof -
  note f = analyze_fields [OF assms]
  obtain rd where rd: "calculate_readability env text = Inr rd"
    using calculate_readability_total by blast
  have k: "(ar_keywords r = None) = (\<not> option_enabled oa ''keywords'')"
    using f(5,6) by auto
  have e: "(ar_entities r = None) = (\<not> option_enabled oa ''entities'')"
    using f(7,8) by auto
  have rdb: "(ar_readability r = None) = (\<not> option_enabled oa ''readability'')"
    using f(12) rd by auto
  have s: "(ar_summary r = None) = (\<not> option_enabled oa ''summary'')"
    "(ar_topics r = None) = (\<not> option_enabled oa ''topics'')"
    "(ar_sentiment r = None) = (\<not> option_enabled oa ''sentiment'')"
    using f(9,10,11) by auto
  show ?thesis
    unfolding result_keys_def k e rdb s f(1,2,3,4) base_keys_def optional_keys_def
    by auto
qed

lemma option_enabled_all_disabled:
  "key \<in> optional_keys \<Longrightarrow> \<not> option_enabled (Some all_disabled) key"
  by (auto simp: optional_keys_def option_enabled_def all_disabled_def get_option_def)

lemma analyze_raises:
  assumes "\<not> blank text"
  shows "option_enabled oa ''keywords'' \<Longrightarrow> extract_keywords env text 10 = Inl e
           \<Longrightarrow> analyze env text oa = Inl e"
    and "option_enabled oa ''keywords'' \<longrightarrow> (\<exists>k. extract_keywords env text 10 = Inr k)
           \<Longrightarrow> option_enabled oa ''entities'' \<Longrightarrow> extract_entities env text = Inl e
           \<Longrightarrow> analyze env text oa = Inl e"
proof -
  define opts where "opts = (case oa of None \<Rightarrow> default_options | Some opts \<Rightarrow> opts)"
  have en: "get_option opts ''keywords'' True = option_enabled oa ''keywords''"
    "get_option opts ''entities'' True = option_enabled oa ''entities''"
    by (simp_all add: option_enabled_def opts_def)
  show "option_enabled oa ''keywords'' \<Longrightarrow> extract_keywords env text 10 = Inl e
           \<Longrightarrow> analyze env text oa = Inl e"
    using assms unfolding analyze_def blank_def Let_def opts_def [symmetric] en
    by (simp add: and_then_def)
  show "option_enabled oa ''keywords'' \<longrightarrow> (\<exists>k. extract_keywords env text 10 = Inr k)
           \<Longrightarrow> option_enabled oa ''entities'' \<Longrightarrow> extract_entities env text = Inl e
           \<Longrightarrow> analyze env text oa = Inl e"
    using assms unfolding analyze_def blank_def Let_def opts_def [symmetric] en
    by (auto simp: and_then_def)
qed

lemma get_option_absent:
  assumes "opts key = None" and "key \<in> optional_keys" and "k \<in> optional_keys"
  shows "get_option (opts(key \<mapsto> (key \<noteq> ''sentiment''))) k (k \<noteq> ''sentiment'')
         = get_option opts k (k \<noteq> ''sentiment'')"
  using assms by (auto simp: get_option_def)

lemma analyze_absent_key:
  assumes n: "opts key = None" and k: "key \<in> optional_keys"
  shows "analyze env text (Some opts)
         = analyze env text (Some (opts(key \<mapsto> (key \<noteq> ''sentiment''))))"
proof -
  let ?o = "opts(key \<mapsto> (key \<noteq> ''sentiment''))"
  have g: "get_option ?o ''keywords'' True = get_option opts ''keywords'' True"
    "get_option ?o ''entities'' True = get_option opts ''entities'' True"
    "get_option ?o ''summary'' True = get_option opts ''summary'' True"
    "get_option ?o ''topics'' True = get_option opts ''topics'' True"
    "get_option ?o ''sentiment'' False = get_option opts ''sentiment'' False"
    "get_option ?o ''readability'' True = get_option opts ''readability'' True"
    using get_option_absent [of opts key "''keywords''", OF n k]
      get_option_absent [of opts key "''entities''", OF n k]
      get_option_absent [of opts key "''summary''", OF n k]
      get_option_absent [of opts key "''topics''", OF n k]
      get_option_absent [of opts key "''sentiment''", OF n k]
      get_option_absent [of opts key "''readability''", OF n k]
    by (simp_all add: optional_keys_def)
  show ?thesis
    unfolding analyze_def Let_def option.case g ..
qed

lemma analyze_returns:
  assumes nb: "\<not> blank text"
    and kw: "option_enabled oa ''keywords'' \<longrightarrow> (\<exists>k. extract_keywords env text 10 = Inr k)"
    and en: "option_enabled oa ''entities'' \<longrightarrow> (\<exists>k. extract_entities env text = Inr k)"
  shows "\<exists>r. analyze env text oa = Inr r
            \<and> ar_text_length r = Some (length text)
            \<and> ar_word_count r = Some (length (word_tokenize env text))
            \<and> ar_sentence_count r = Some (length (sent_tokenize env text))
            \<and> result_keys r = base_keys \<union> {key \<in> optional_keys. option_enabled oa key}"
proof -
  obtain r where r: "analyze env text oa = Inr r"
    using analyze_total [OF nb kw en] ..
  from r analyze_fields(2,3,4) [OF nb r] result_keys_analyze [OF nb r]
  show ?thesis by blast
qed

text \<open>
  C3 (as amended). For an empty or whitespace-only text \<open>analyze\<close> returns the error
  result, whose only key is \<open>error\<close>, and raises nothing. For any other text, when the
  keyword and the entity extraction, where enabled, raise nothing, \<open>analyze\<close> returns a
  result that holds \<open>text_length\<close> (the number of characters), \<open>word_count\<close> and
  \<open>sentence_count\<close>, and an optional key exactly when its option is enabled; with all
  six options false it returns a result with exactly the three base keys. When the
  enabled keyword extraction raises, or the enabled entity extraction after it, the
  exception escapes \<open>analyze\<close> and there is no result.
\<close>

theorem analyze_spec:
  "(blank text \<longrightarrow> analyze env text oa = Inr empty_text_error)
   \<and> result_keys (empty_text_error :: 'f analysis_result) = {''error''}
   \<and> (\<not> blank text
        \<and> (option_enabled oa ''keywords'' \<longrightarrow> (\<exists>k. extract_keywords env text 10 = Inr k))
        \<and> (option_enabled oa ''entities'' \<longrightarrow> (\<exists>k. extract_entities env text = Inr k))
        \<longrightarrow> (\<exists>r. analyze env text oa = Inr r
                 \<and> ar_text_length r = Some (length text)
                 \<and> ar_word_count r = Some (length (word_tokenize env text))
                 \<and> ar_sentence_count r = Some (length (sent_tokenize env text))
                 \<and> result_keys r = base_keys \<union> {key \<in> optional_keys. option_enabled oa key}))
   \<and> (\<not> blank text \<longrightarrow>
         (\<exists>r0. analyze env text (Some all_disabled) = Inr r0
                \<and> ar_text_length r0 = Some (length text)
                \<and> ar_word_count r0 = Some (length (word_tokenize env text))
                \<and> ar_sentence_count r0 = Some (length (sent_tokenize env text))
                \<and> result_keys r0 = base_keys))
   \<and> (\<not> blank text \<and> option_enabled oa ''keywords'' \<and> extract_keywords env text 10 = Inl e
        \<longrightarrow> analyze env text oa = Inl e)
   \<and> (\<not> blank text
        \<and> (option_enabled oa ''keywords'' \<longrightarrow> (\<exists>k. extract_keywords env text 10 = Inr k))
        \<and> option_enabled oa ''entities'' \<and> extract_entities env text = Inl e
        \<longrightarrow> analyze env text oa = Inl e)"
proof -
  have 1: "analyze env text oa = Inr empty_text_error" if "blank text"
    using that by (simp add: analyze_blank empty_text_error_def)
  have 2: "result_keys (empty_text_error :: 'f analysis_result) = {''error''}"
    by (simp add: result_keys_def empty_text_error_def empty_result_def)
  have 3: "\<exists>r. analyze env text oa = Inr r
                 \<and> ar_text_length r = Some (length text)
                 \<and> ar_word_count r = Some (length (word_tokenize env text))
                 \<and> ar_sentence_count r = Some (length (sent_tokenize env text))
                 \<and> result_keys r = base_keys \<union> {key \<in> optional_keys. option_enabled oa key}"
    if "\<not> blank text
        \<and> (option_enabled oa ''keywords'' \<longrightarrow> (\<exists>k. extract_keywords env text 10 = Inr k))
        \<and> (option_enabled oa ''entities'' \<longrightarrow> (\<exists>k. extract_entities env text = Inr k))"
    using that analyze_returns by blast
  have 4: "\<exists>r0. analyze env text (Some all_disabled) = Inr r0
                \<and> ar_text_length r0 = Some (length text)
                \<and> ar_word_count r0 = Some (length (word_tokenize env text))
                \<and> ar_sentence_count r0 = Some (length (sent_tokenize env text))
                \<and> result_keys r0 = base_keys"
    if nb: "\<not> blank text"
  proof -
    have e: "{key \<in> optional_keys. option_enabled (Some all_disabled) key} = {}"
      using option_enabled_all_disabled by auto
    have "\<not> option_enabled (Some all_disabled) ''keywords''"
      "\<not> option_enabled (Some all_disabled) ''entities''"
      by (simp_all add: option_enabled_all_disabled optional_keys_def)
    then show ?thesis
      using analyze_returns [OF nb, of "Some all_disabled" env] unfolding e by simp
  qed
  have 5: "analyze env text oa = Inl e"
    if "\<not> blank text \<and> option_enabled oa ''keywords'' \<and> extract_keywords env text 10 = Inl e"
    using that analyze_raises(1) by blast
  have 6: "analyze env text oa = Inl e"
    if "\<not> blank text
        \<and> (option_enabled oa ''keywords'' \<longrightarrow> (\<exists>k. extract_keywords env text 10 = Inr k))
        \<and> option_enabled oa ''entities'' \<and> extract_entities env text = Inl e"
    using that analyze_raises(2) by blast
  from 1 2 3 4 5 6 show ?thesis
    by (intro conjI impI)
qed

text \<open>
  With all six options false the text \<open>Cats chase cat.\<close> gives the three base keys;
  a no-break space is a blank text.
\<close>

theorem analyze_spec_witness:
  "\<not> blank demo_text
   \<and> analyze demo_env demo_text (Some all_disabled) =
       Inr (empty_result\<lparr>ar_text_length := Some 15, ar_word_count := Some 4,
                         ar_sentence_count := Some 1\<rparr>)
   \<and> result_keys (empty_result\<lparr>ar_text_length := Some 15, ar_word_count := Some 4,
                         ar_sentence_count := Some 1\<rparr> :: rat analysis_result)
       = {''text_length'', ''word_count'', ''sentence_count''}
   \<and> blank [CHR 0xA0]
   \<and> analyze demo_env [CHR 0xA0] None = Inr empty_text_error"
proof -
  let ?r = "empty_result\<lparr>ar_text_length := Some 15, ar_word_count := Some 4,
                         ar_sentence_count := Some 1\<rparr> :: rat analysis_result"
  have nb: "\<not> blank demo_text"
    by code_simp
  have b: "blank [CHR 0xA0]"
    by code_simp
  have a: "analyze demo_env demo_text (Some all_disabled) = Inr ?r"
    by code_simp
  note s = analyze_spec [where 'f = rat]
  from s [of demo_text demo_env] nb
  obtain r0 where "analyze demo_env demo_text (Some all_disabled) = Inr r0"
    and "result_keys r0 = base_keys"
    by blast
  with a have k: "result_keys ?r = {''text_length'', ''word_count'', ''sentence_count''}"
    by (simp add: base_keys_def)
  from s [of "[CHR 0xA0]" demo_env None] b
  have e: "analyze demo_env [CHR 0xA0] None = Inr empty_text_error"
    by blast
  from nb a k b e show ?thesis
    by (simp only: simp_thms)
qed

text \<open>
  C3 as stated fails: the text \<open>a\<close> is not blank, and with only the keywords enabled
  \<open>analyze\<close> raises the error of the TF-IDF fit (the vocabulary is empty), so that no
  result with the three base fields is returned.
\<close>

theorem analyze_no_result_counterexample:
  "\<not> blank ''a''
   \<and> analyze demo_env ''a'' (Some (all_disabled(''keywords'' \<mapsto> True)))
       = Inl (Raised ''ValueError''
                ''empty vocabulary; perhaps the documents only contain stop words'')"
proof -
  have 1: "\<not> blank ''a''"
    by code_simp
  have 2: "analyze demo_env ''a'' (Some (all_disabled(''keywords'' \<mapsto> True)))
       = Inl (Raised ''ValueError''
                ''empty vocabulary; perhaps the documents only contain stop words'')"
    by code_simp
  from 1 2 show ?thesis by (simp only: simp_thms)
qed

text \<open>
  C10 (as amended). An option that is absent takes its default: a call without the
  options argument is the call with the dictionary of the defaults, and a call whose
  options lack a key is the call with that key set to its default, which is enabled for
  keywords, entities, summary, topics and readability and disabled for sentiment. A
  default call on a text that is not blank, for which the keyword and the entity
  extraction raise nothing, therefore returns a result with every optional section
  except sentiment; when the keyword extraction raises, the default call raises too.
\<close>

theorem analyze_default_options:
  "analyze env text None = analyze env text (Some default_options)
   \<and> (\<forall>key \<in> optional_keys. opts key = None \<longrightarrow>
         analyze env text (Some opts)
         = analyze env text (Some (opts(key \<mapsto> (key \<noteq> ''sentiment'')))))
   \<and> (\<not> blank text \<and> extract_keywords env text 10 = Inr kws
        \<and> extract_entities env text = Inr ents \<longrightarrow>
         (\<exists>r rd. analyze env text None = Inr r
            \<and> result_keys r = base_keys \<union> (optional_keys - {''sentiment''})
            \<and> ar_keywords r = Some kws \<and> ar_entities r = Some ents
            \<and> ar_summary r = Some (summarize env text 150 40)
            \<and> ar_topics r = Some (extract_topics env text 3)
            \<and> calculate_readability env text = Inr rd \<and> ar_readability r = Some rd
            \<and> ar_sentiment r = None))
   \<and> (\<not> blank text
        \<and> (option_enabled (Some opts) ''keywords'' \<longrightarrow> (\<exists>k. extract_keywords env text 10 = Inr k))
        \<and> (option_enabled (Some opts) ''entities'' \<longrightarrow> (\<exists>k. extract_entities env text = Inr k))
        \<longrightarrow> (\<exists>r'. analyze env text (Some opts) = Inr r'
               \<and> (\<forall>key \<in> optional_keys. opts key = None \<longrightarrow>
                     (key \<in> result_keys r') = (key \<noteq> ''sentiment''))))
   \<and> (\<not> blank text \<and> extract_keywords env text 10 = Inl e \<longrightarrow> analyze env text None = Inl e)"
proof -
  have 1: "analyze env text None = analyze env text (Some default_options)"
    by (simp add: analyze_def)
  have 2: "\<forall>key \<in> optional_keys. opts key = None \<longrightarrow>
         analyze env text (Some opts)
         = analyze env text (Some (opts(key \<mapsto> (key \<noteq> ''sentiment''))))"
    using analyze_absent_key by blast
  have on: "option_enabled None ''keywords''" "option_enabled None ''entities''"
    "option_enabled None ''summary''" "option_enabled None ''topics''"
    "option_enabled None ''readability''" "\<not> option_enabled None ''sentiment''"
    by (simp_all add: option_enabled_def default_options_def get_option_def)
  have 3: "\<exists>r rd. analyze env text None = Inr r
            \<and> result_keys r = base_keys \<union> (optional_keys - {''sentiment''})
            \<and> ar_keywords r = Some kws \<and> ar_entities r = Some ents
            \<and> ar_summary r = Some (summarize env text 150 40)
            \<and> ar_topics r = Some (extract_topics env text 3)
            \<and> calculate_readability env text = Inr rd \<and> ar_readability r = Some rd
            \<and> ar_sentiment r = None"
    if a: "\<not> blank text \<and> extract_keywords env text 10 = Inr kws
        \<and> extract_entities env text = Inr ents"
  proof -
    from a have nb: "\<not> blank text" and kw: "extract_keywords env text 10 = Inr kws"
      and en: "extract_entities env text = Inr ents" by simp_all
    obtain r where r: "analyze env text None = Inr r"
      using analyze_total [OF nb, of None env] kw en by auto
    obtain rd where rd: "calculate_readability env text = Inr rd"
      using calculate_readability_total by blast
    have e: "{key \<in> optional_keys. option_enabled None key} = optional_keys - {''sentiment''}"
      using on by (auto simp: optional_keys_def)
    have keys: "result_keys r = base_keys \<union> (optional_keys - {''sentiment''})"
      using result_keys_analyze [OF nb r] e by simp
    note f = analyze_fields [OF nb r]
    have "ar_keywords r = Some kws" "ar_entities r = Some ents"
      "ar_summary r = Some (summarize env text 150 40)"
      "ar_topics r = Some (extract_topics env text 3)"
      "ar_readability r = Some rd" "ar_sentiment r = None"
      using f(5,7,9,10,11,12) on kw en rd by simp_all
    with r keys rd show ?thesis by blast
  qed
  have 4: "\<exists>r'. analyze env text (Some opts) = Inr r'
               \<and> (\<forall>key \<in> optional_keys. opts key = None \<longrightarrow>
                     (key \<in> result_keys r') = (key \<noteq> ''sentiment''))"
    if a: "\<not> blank text
        \<and> (option_enabled (Some opts) ''keywords'' \<longrightarrow> (\<exists>k. extract_keywords env text 10 = Inr k))
        \<and> (option_enabled (Some opts) ''entities'' \<longrightarrow> (\<exists>k. extract_entities env text = Inr k))"
  proof -
    from a have nb: "\<not> blank text" by simp
    obtain r' where r': "analyze env text (Some opts) = Inr r'"
      using analyze_total [OF nb, of "Some opts" env] a by blast
    have "(key \<in> result_keys r') = (key \<noteq> ''sentiment'')"
      if k: "key \<in> optional_keys" and n: "opts key = None" for key
    proof -
      have "option_enabled (Some opts) key = (key \<noteq> ''sentiment'')"
        using n by (simp add: option_enabled_def get_option_def)
      moreover have "key \<notin> base_keys"
        using k by (auto simp: optional_keys_def base_keys_def)
      ultimately show ?thesis
        using result_keys_analyze [OF nb r'] k by simp
    qed
    with r' show ?thesis by blast
  qed
  have 5: "analyze env text None = Inl e"
    if "\<not> blank text \<and> extract_keywords env text 10 = Inl e"
    using that on(1) analyze_raises(1) by blast
  from 1 2 3 4 5 show ?thesis
    by (intro conjI impI)
qed

text \<open>
  A default call on \<open>Cats chase cat.\<close> gives every section but the sentiment, and so
  does the call with the empty options dictionary, from which all six keys are absent.
\<close>

theorem analyze_default_options_witness:
  "\<not> blank demo_text
   \<and> extract_keywords demo_env demo_text 10 = Inr [(''cat'', 2887 / 1250), (''chase'', 2887 / 5000)]
   \<and> extract_entities demo_env demo_text = Inr []
   \<and> analyze demo_env demo_text None =
       Inr \<lparr>ar_error = None, ar_text_length = Some 15, ar_word_count = Some 4,
            ar_sentence_count = Some 1,
            ar_keywords = Some [(''cat'', 2887 / 1250), (''chase'', 2887 / 5000)],
            ar_entities = Some [], ar_summary = Some ''Cats chase cat.'',
            ar_topics = Some [], ar_sentiment = None,
            ar_readability =
              Some \<lparr>flesch_reading_ease = 11919 / 100,
                    flesch_kincaid_grade = - (131 / 50), complex_word_ratio = 0,
                    avg_words_per_sentence = Some 3,
                    avg_syllables_per_word = Some 1\<rparr>\<rparr>
   \<and> ''keywords'' \<in> optional_keys
   \<and> analyze demo_env demo_text (Some Map.empty)
       = analyze demo_env demo_text (Some [''keywords'' \<mapsto> True])"
proof -
  have nb: "\<not> blank demo_text"
    by code_simp
  have kw: "extract_keywords demo_env demo_text 10
            = Inr [(''cat'', 2887 / 1250), (''chase'', 2887 / 5000)]"
    by code_simp
  have en: "extract_entities demo_env demo_text = Inr []"
    by code_simp
  have a: "analyze demo_env demo_text None =
       Inr \<lparr>ar_error = None, ar_text_length = Some 15, ar_word_count = Some 4,
            ar_sentence_count = Some 1,
            ar_keywords = Some [(''cat'', 2887 / 1250), (''chase'', 2887 / 5000)],
            ar_entities = Some [], ar_summary = Some ''Cats chase cat.'',
            ar_topics = Some [], ar_sentiment = None,
            ar_readability =
              Some \<lparr>flesch_reading_ease = 11919 / 100,
                    flesch_kincaid_grade = - (131 / 50), complex_word_ratio = 0,
                    avg_words_per_sentence = Some 3,
                    avg_syllables_per_word = Some 1\<rparr>\<rparr>"
    by code_simp
  have k: "''keywords'' \<in> optional_keys"
    by (simp add: optional_keys_def)
  from analyze_default_options [of demo_env demo_text Map.empty]
  have "\<forall>key \<in> optional_keys. Map.empty key = None \<longrightarrow>
         analyze demo_env demo_text (Some Map.empty)
         = analyze demo_env demo_text (Some (Map.empty(key \<mapsto> (key \<noteq> ''sentiment''))))"
    by blast
  from bspec [OF this k]
  have m: "analyze demo_env demo_text (Some Map.empty)
       = analyze demo_env demo_text (Some [''keywords'' \<mapsto> True])"
    by simp
  from nb kw en a k m show ?thesis
    by (simp only: simp_thms)
qed

text \<open>
  C10 as stated fails: the text \<open>it is\<close> is not blank, and the default call computes no
  section: it raises the error of the TF-IDF fit on a vocabulary of stop words.
\<close>

theorem analyze_default_raises_counterexample:
  "\<not> blank ''it is''
   \<and> analyze demo_env ''it is'' None
       = Inl (Raised ''ValueError''
                ''empty vocabulary; perhaps the documents only contain stop words'')"
proof -
  have 1: "\<not> blank ''it is''"
    by code_simp
  have 2: "analyze demo_env ''it is'' None
       = Inl (Raised ''ValueError''
                ''empty vocabulary; perhaps the documents only contain stop words'')"
    by code_simp
  from 1 2 show ?thesis by (simp only: simp_thms)
qed

section \<open>Properties of the summary\<close>

lemma dict_add_new: "k \<notin> fst ` set d \<Longrightarrow> dict_add ops d k v = d @ [(k, v)]"
  by (induction d) auto

lemma dict_add_last:
  "k \<notin> fst ` set d \<Longrightarrow> dict_add ops (d @ [(k, x)]) k v = d @ [(k, f_add ops x v)]"
  by (induction d) auto

lemma foldl_dict_add_last:
  "k \<notin> fst ` set d \<Longrightarrow>
   foldl (\<lambda>sc v. dict_add ops sc k v) (d @ [(k, x)]) vs = d @ [(k, foldl (f_add ops) x vs)]"
  by (induction vs arbitrary: x) (simp_all add: dict_add_last)

lemma foldl_dict_add_new:
  "k \<notin> fst ` set d \<Longrightarrow>
   foldl (\<lambda>sc v. dict_add ops sc k v) d vs =
     (case vs of [] \<Rightarrow> d | v # vs' \<Rightarrow> d @ [(k, foldl (f_add ops) v vs')])"
  by (cases vs) (simp_all add: dict_add_new foldl_dict_add_last)

lemma word_loop_values:
  "foldl (\<lambda>scores word. case fr word of None \<Rightarrow> scores
                         | Some v \<Rightarrow> dict_add ops scores i v) d ws
   = foldl (\<lambda>sc v. dict_add ops sc i v) d (List.map_filter fr ws)"
  by (induction ws arbitrary: d) (simp_all add: List.map_filter_simps split: option.splits)

lemma sentence_loop_scores_aux:
  assumes "\<forall>k \<in> fst ` set d. k < n"
  shows "foldl (\<lambda>sentence_scores (i, sentence).
              foldl (\<lambda>sc v. dict_add ops sc i v) sentence_scores
                (List.map_filter fr (tok sentence)))
           d (enumerate n ss)
         = d @ List.map_filter (\<lambda>(i, sentence). map_option (Pair i) (score_of ops fr (tok sentence)))
                 (enumerate n ss)"
  using assms
proof (induction ss arbitrary: d n)
  case Nil
  then show ?case by (simp add: List.map_filter_simps)
next
  case (Cons s ss)
  have new: "n \<notin> fst ` set d" using Cons.prems by auto
  let ?d' = "foldl (\<lambda>sc v. dict_add ops sc n v) d (List.map_filter fr (tok s))"
  have d': "?d' = d @ (case score_of ops fr (tok s) of None \<Rightarrow> [] | Some v \<Rightarrow> [(n, v)])"
    unfolding foldl_dict_add_new [OF new] score_of_def by (simp split: list.splits)
  have keys: "\<forall>k \<in> fst ` set ?d'. k < Suc n"
    unfolding d' using Cons.prems by (auto split: option.splits)
  have "foldl (\<lambda>sentence_scores (i, sentence).
              foldl (\<lambda>sc v. dict_add ops sc i v) sentence_scores
                (List.map_filter fr (tok sentence)))
           d (enumerate n (s # ss))
        = foldl (\<lambda>sentence_scores (i, sentence).
              foldl (\<lambda>sc v. dict_add ops sc i v) sentence_scores
                (List.map_filter fr (tok sentence)))
           ?d' (enumerate (Suc n) ss)"
    by simp
  also have "\<dots> = ?d' @ List.map_filter (\<lambda>(i, sentence). map_option (Pair i) (score_of ops fr (tok sentence)))
                 (enumerate (Suc n) ss)"
    by (rule Cons.IH [OF keys])
  also have "\<dots> = d @ List.map_filter (\<lambda>(i, sentence). map_option (Pair i) (score_of ops fr (tok sentence)))
                 (enumerate n (s # ss))"
    unfolding d' by (simp add: List.map_filter_simps split: option.splits)
  finally show ?case .
qed

lemma sentence_loop_scores:
  "foldl (\<lambda>sentence_scores (i, sentence).
              foldl (\<lambda>scores word. case fr word of None \<Rightarrow> scores
                                     | Some v \<Rightarrow> dict_add ops scores i v)
                    sentence_scores (tok sentence))
           [] (enumerate 0 ss)
         = List.map_filter (\<lambda>(i, sentence). map_option (Pair i) (score_of ops fr (tok sentence)))
                 (enumerate 0 ss)"
  unfolding word_loop_values using sentence_loop_scores_aux [of "[]" 0 ops fr tok ss] by simp

lemma map_of_dict_count:
  "map_of (dict_count d k) = (map_of d)(k \<mapsto> (case map_of d k of None \<Rightarrow> 1 | Some n \<Rightarrow> n + 1))"
  by (induction d) (auto simp: fun_eq_iff)

lemma dict_count_keys:
  "map fst (dict_count d k) = (if k \<in> set (map fst d) then map fst d else map fst d @ [k])"
  by (induction d) (force split: if_splits)+

lemma dict_count_distinct: "distinct (map fst d) \<Longrightarrow> distinct (map fst (dict_count d k))"
  by (simp add: dict_count_keys)

lemma foldl_dict_count_distinct:
  "distinct (map fst d) \<Longrightarrow> distinct (map fst (foldl dict_count d ws))"
  by (induction ws arbitrary: d) (simp_all add: dict_count_distinct)

lemma map_of_foldl_dict_count:
  "map_of (foldl dict_count d ws) w =
     (if w \<in> set ws
      then Some ((case map_of d w of None \<Rightarrow> 0 | Some n \<Rightarrow> n) + int (count_list ws w))
      else map_of d w)"
  by (induction ws arbitrary: d) (auto simp: map_of_dict_count split: option.splits)

lemma foldl_nested_concat:
  "foldl (\<lambda>a x. foldl g a (h x)) a xs = foldl g a (concat (map h xs))"
  by (induction xs arbitrary: a) simp_all

lemma foldl_if_filter:
  "foldl (\<lambda>a x. if P x then g a x else a) a xs = foldl g a (filter P xs)"
  by (induction xs arbitrary: a) simp_all

lemma count_words_content:
  "count_words env sentences = foldl dict_count [] (content_words env sentences)"
  unfolding count_words_def content_words_def foldl_if_filter foldl_nested_concat
  by (simp add: filter_concat comp_def)

lemma map_of_count_words:
  "map_of (count_words env sentences) w =
     (if w \<in> set (content_words env sentences)
      then Some (int (count_list (content_words env sentences) w)) else None)"
  by (simp add: count_words_content map_of_foldl_dict_count)

lemma set_count_words:
  "set (count_words env sentences) =
     (\<lambda>w. (w, int (count_list (content_words env sentences) w))) ` set (content_words env sentences)"
proof -
  have d: "distinct (map fst (count_words env sentences))"
    unfolding count_words_content by (rule foldl_dict_count_distinct) simp
  show ?thesis
    by (auto simp: map_of_eq_Some_iff [OF d, symmetric] map_of_count_words split: if_splits)
qed

lemma foldl_max: "foldl max (n :: int) xs = Max (set (n # xs))"
proof -
  have "(\<lambda>x a. max a x) = (max :: int \<Rightarrow> int \<Rightarrow> int)"
    by (auto simp: fun_eq_iff)
  then have "foldl max n xs = fold max xs n"
    by (simp add: foldl_conv_fold)
  also have "\<dots> = Max (set (n # xs))"
    by (rule Max.set_eq_fold [symmetric])
  finally show ?thesis .
qed

lemma max_frequency_Max:
  "d \<noteq> [] \<Longrightarrow> max_frequency d = Max (set (map snd d))"
  by (cases d) (auto simp: max_frequency_def foldl_max)

lemma map_of_normalize_frequencies:
  "map_of (normalize_frequencies (fops env) (count_words env sentences)) =
     normalized_frequency env sentences"
proof
  fix w
  let ?c = "content_words env sentences"
  let ?d = "count_words env sentences"
  have m: "map_of (normalize_frequencies (fops env) ?d) w =
      map_option (\<lambda>n. f_div (fops env) (f_int (fops env) n) (f_int (fops env) (max_frequency ?d)))
        (map_of ?d w)"
    unfolding normalize_frequencies_def by (simp add: map_of_map)
  show "map_of (normalize_frequencies (fops env) ?d) w = normalized_frequency env sentences w"
  proof (cases "w \<in> set ?c")
    case False
    then show ?thesis
      unfolding m by (simp add: map_of_count_words normalized_frequency_def)
  next
    case True
    then have ne: "?d \<noteq> []"
      using set_count_words [of env sentences] by auto
    have "set (map snd ?d) = set (map (\<lambda>w. int (count_list ?c w)) ?c)"
      by (simp add: set_count_words image_image)
    then have "max_frequency ?d = Max (set (map (\<lambda>w. int (count_list ?c w)) ?c))"
      using max_frequency_Max [OF ne] by simp
    with True show ?thesis
      unfolding m by (simp add: map_of_count_words normalized_frequency_def Let_def)
  qed
qed

lemma score_sentences_scored:
  "score_sentences env (normalize_frequencies (fops env) (count_words env sentences)) sentences
     = scored_sentences env sentences"
  unfolding score_sentences_def sentence_loop_scores map_of_normalize_frequencies
    scored_sentences_def sentence_score_def score_of_def ..

lemma scored_keys_aux:
  "sorted_wrt (<) (map fst (List.map_filter (\<lambda>(i, s). map_option (Pair i) (g s)) (enumerate n ss)))
   \<and> (\<forall>i \<in> set (map fst (List.map_filter (\<lambda>(i, s). map_option (Pair i) (g s)) (enumerate n ss))).
         n \<le> i \<and> i < n + length ss)"
proof (induction ss arbitrary: n)
  case Nil
  show ?case by (simp add: List.map_filter_simps)
next
  case (Cons s ss)
  from Cons.IH [of "Suc n"] show ?case
    by (cases "g s") (auto simp: List.map_filter_simps)
qed

lemma scored_sentences_keys:
  "sorted_wrt (<) (map fst (scored_sentences env ss))"
  "\<forall>i \<in> set (map fst (scored_sentences env ss)). i < length ss"
  using scored_keys_aux [of "sentence_score env ss" 0 ss]
  unfolding scored_sentences_def by simp_all

lemma py_sorted_reverse_set: "set (py_sorted_reverse key xs) = set xs"
  by (simp add: py_sorted_reverse_def)

lemma py_sorted_reverse_length: "length (py_sorted_reverse key xs) = length xs"
  by (simp add: py_sorted_reverse_def)

lemma py_sorted_reverse_distinct: "distinct (py_sorted_reverse key xs) = distinct xs"
  by (simp add: py_sorted_reverse_def)

lemma py_sorted_reverse_descending:
  "sorted (rev (map key (py_sorted_reverse key xs)))"
  by (simp add: py_sorted_reverse_def rev_map [symmetric])

lemma descending_take_drop:
  assumes "sorted (rev (map key xs))" and "x \<in> set (take n xs)" and "y \<in> set (drop n xs)"
  shows "key y \<le> key x"
proof -
  have "rev (map key xs) = rev (map key (drop n xs)) @ rev (map key (take n xs))"
    by (metis append_take_drop_id map_append rev_append)
  with assms(1) have "\<forall>a \<in> set (rev (map key (drop n xs))). \<forall>b \<in> set (rev (map key (take n xs))). a \<le> b"
    by (simp add: sorted_append)
  with assms(2,3) show ?thesis by auto
qed

lemma top_sentence_indices_props:
  fixes env :: "('f::linorder) analyzer" and sentences :: "string list" and n :: nat
  defines "scores \<equiv> scored_sentences env sentences"
  defines "idxs \<equiv> top_sentence_indices env sentences n"
  shows "sorted_wrt (<) idxs"
    and "\<forall>i \<in> set idxs. i < length sentences"
    and "length idxs = min n (length scores)"
    and "set idxs \<subseteq> fst ` set scores"
    and "\<forall>(i, si) \<in> set scores. \<forall>(j, sj) \<in> set scores.
           i \<in> set idxs \<and> j \<notin> set idxs \<longrightarrow> sj \<le> si"
proof -
  define L where "L = py_sorted_reverse snd scores"
  have idxs: "idxs = sort (map fst (take n L))"
    unfolding idxs_def top_sentence_indices_def Let_def score_sentences_scored L_def scores_def ..
  have dk: "distinct (map fst scores)"
    using scored_sentences_keys(1) [of env sentences] strict_sorted_iff
    unfolding scores_def by blast
  then have ds: "distinct scores" and inj: "inj_on fst (set scores)"
    by (simp_all add: distinct_map)
  have setL: "set L = set scores" and dL: "distinct L" and lenL: "length L = length scores"
    unfolding L_def
    by (simp_all add: py_sorted_reverse_set py_sorted_reverse_distinct py_sorted_reverse_length ds)
  have sub: "set (take n L) \<subseteq> set scores"
    using set_take_subset [of n L] setL by simp
  have dt: "distinct (map fst (take n L))"
    unfolding distinct_map using dL inj sub by (auto intro: inj_on_subset)
  have set_idxs: "set idxs = fst ` set (take n L)"
    by (simp add: idxs)
  show "sorted_wrt (<) idxs"
    unfolding strict_sorted_iff idxs using dt by simp
  show "\<forall>i \<in> set idxs. i < length sentences"
    using scored_sentences_keys(2) [of env sentences] sub
    unfolding set_idxs scores_def by auto
  show "length idxs = min n (length scores)"
    by (simp add: idxs lenL min.commute)
  show "set idxs \<subseteq> fst ` set scores"
    unfolding set_idxs using sub by auto
  show "\<forall>(i, si) \<in> set scores. \<forall>(j, sj) \<in> set scores.
           i \<in> set idxs \<and> j \<notin> set idxs \<longrightarrow> sj \<le> si"
  proof (intro ballI, clarify)
    fix i si j sj
    assume i: "(i, si) \<in> set scores" and j: "(j, sj) \<in> set scores"
      and ii: "i \<in> set idxs" and jj: "j \<notin> set idxs"
    from ii obtain s' where s': "(i, s') \<in> set (take n L)"
      unfolding set_idxs by auto
    with sub have "(i, s') \<in> set scores" by auto
    with i inj have "(i, s') = (i, si)"
      by (intro inj_onD [of fst "set scores"]) simp_all
    then have "s' = si" by simp
    with s' have it: "(i, si) \<in> set (take n L)" by simp
    from jj have "(j, sj) \<notin> set (take n L)"
      unfolding set_idxs by force
    moreover from j setL have "(j, sj) \<in> set (take n L) \<union> set (drop n L)"
      unfolding set_append [symmetric] append_take_drop_id by simp
    ultimately have jd: "(j, sj) \<in> set (drop n L)" by blast
    have "sorted (rev (map snd L))"
      unfolding L_def by (rule py_sorted_reverse_descending)
    from descending_take_drop [OF this it jd] show "sj \<le> si" by simp
  qed
qed

text \<open>
  C6 (as amended). \<open>summarize\<close> returns the text unchanged when it has fewer than
  \<open>min_length\<close> (40 by default) words, and otherwise falls back to the extractive
  summary of three sentences when the model cannot be loaded or fails. The extractive
  summary returns the text unchanged when it has at most \<open>sentences_count\<close> sentences.
  Otherwise it joins, with single spaces and in their original order, the sentences
  selected among those that contain a content word: \<open>sentences_count\<close> of them, or all
  of them when they are fewer, and no sentence left out has a higher score than a
  selected one. The score is the sum of the normalized frequencies of the sentence's
  content words.
\<close>

theorem summarize_spec:
  fixes env :: "('f::linorder) analyzer"
  shows
  "(length (py_split text) < min_length \<longrightarrow> summarize env text max_length min_length = text)
   \<and> (min_length \<le> length (py_split text) \<and> summarizer env = Inl e \<longrightarrow>
         summarize env text max_length min_length = extractive_summarize env text 3)
   \<and> (min_length \<le> length (py_split text) \<and> summarizer env = Inr model
         \<and> model (truncate_words text) max_length min_length = Inl e \<longrightarrow>
         summarize env text max_length min_length
           = extractive_summarize env (truncate_words text) 3)
   \<and> (length (sent_tokenize env text) \<le> n \<longrightarrow> extractive_summarize env text n = text)
   \<and> (n < length (sent_tokenize env text) \<longrightarrow>
        (let sentences = sent_tokenize env text;
             scores = scored_sentences env sentences;
             idxs = top_sentence_indices env sentences n
         in extractive_summarize env text n = str_join '' '' (map (\<lambda>i. sentences ! i) idxs)
            \<and> sorted_wrt (<) idxs
            \<and> (\<forall>i \<in> set idxs. i < length sentences)
            \<and> length idxs = min n (length scores)
            \<and> set idxs \<subseteq> fst ` set scores
            \<and> (\<forall>(i, si) \<in> set scores. \<forall>(j, sj) \<in> set scores.
                  i \<in> set idxs \<and> j \<notin> set idxs \<longrightarrow> sj \<le> si)))"
proof (intro conjI impI)
  assume "length (py_split text) < min_length"
  then show "summarize env text max_length min_length = text"
    by (simp add: summarize_def)
next
  assume "min_length \<le> length (py_split text) \<and> summarizer env = Inl e"
  then show "summarize env text max_length min_length = extractive_summarize env text 3"
    by (simp add: summarize_def)
next
  assume "min_length \<le> length (py_split text) \<and> summarizer env = Inr model
         \<and> model (truncate_words text) max_length min_length = Inl e"
  then show "summarize env text max_length min_length
           = extractive_summarize env (truncate_words text) 3"
    by (simp add: summarize_def)
next
  assume "length (sent_tokenize env text) \<le> n"
  then show "extractive_summarize env text n = text"
    by (simp add: extractive_summarize_def)
next
  assume n: "n < length (sent_tokenize env text)"
  note p = top_sentence_indices_props [of env "sent_tokenize env text" n]
  have "extractive_summarize env text n =
      str_join '' '' (map (\<lambda>i. sent_tokenize env text ! i)
        (top_sentence_indices env (sent_tokenize env text) n))"
    using n by (simp add: extractive_summarize_def Let_def)
  with p show "let sentences = sent_tokenize env text;
             scores = scored_sentences env sentences;
             idxs = top_sentence_indices env sentences n
         in extractive_summarize env text n = str_join '' '' (map (\<lambda>i. sentences ! i) idxs)
            \<and> sorted_wrt (<) idxs
            \<and> (\<forall>i \<in> set idxs. i < length sentences)
            \<and> length idxs = min n (length scores)
            \<and> set idxs \<subseteq> fst ` set scores
            \<and> (\<forall>(i, si) \<in> set scores. \<forall>(j, sj) \<in> set scores.
                  i \<in> set idxs \<and> j \<notin> set idxs \<longrightarrow> sj \<le> si)"
    unfolding Let_def by blast
qed

theorem summarize_spec_witness:
  "3 < length (sent_tokenize demo_env ranked_text)
   \<and> scored_sentences demo_env (sent_tokenize demo_env ranked_text)
        = [(0, 5 / 2), (2, 3 / 2), (4, 1), (5, 7 / 2)]
   \<and> top_sentence_indices demo_env (sent_tokenize demo_env ranked_text) 3 = [0, 2, 5]
   \<and> extractive_summarize demo_env ranked_text 3
        = ''Cats chase cat. Cats chase. Cats chase cat cat.''
   \<and> summarize demo_env ranked_text 150 40 = ranked_text
   \<and> 40 \<le> length (py_split sparse_text)
   \<and> summarize demo_env sparse_text 150 40 = extractive_summarize demo_env sparse_text 3"
proof -
  have s: "sent_tokenize demo_env ranked_text =
      [''Cats chase cat.'', ''It is.'', ''Cats chase.'', ''He was.'', ''Cat is.'', ''Cats chase cat cat.'']"
    by code_simp
  have n: "3 < length (sent_tokenize demo_env ranked_text)"
    unfolding s by simp
  have sc: "scored_sentences demo_env (sent_tokenize demo_env ranked_text)
        = [(0, 5 / 2), (2, 3 / 2), (4, 1), (5, 7 / 2)]"
    by code_simp
  have t: "top_sentence_indices demo_env (sent_tokenize demo_env ranked_text) 3 = [0, 2, 5]"
    by code_simp
  have w: "length (py_split ranked_text) < 40"
    by code_simp
  from summarize_spec [of ranked_text 40 demo_env 150 _ _ 3] n w
  have "extractive_summarize demo_env ranked_text 3 =
          str_join '' '' (map (\<lambda>i. sent_tokenize demo_env ranked_text ! i)
             (top_sentence_indices demo_env (sent_tokenize demo_env ranked_text) 3))"
    and sm: "summarize demo_env ranked_text 150 40 = ranked_text"
    unfolding Let_def by blast+
  then have "extractive_summarize demo_env ranked_text 3
        = ''Cats chase cat. Cats chase. Cats chase cat cat.''"
    unfolding t unfolding s by simp
  moreover have w2: "40 \<le> length (py_split sparse_text)"
    by code_simp
  moreover have "summarize demo_env sparse_text 150 40 = extractive_summarize demo_env sparse_text 3"
    using summarize_spec [where env = demo_env and min_length = 40 and max_length = 150
                           and e = model_missing, of sparse_text, THEN conjunct2, THEN conjunct1]
      w2 by (simp add: demo_env_def)
  ultimately show ?thesis
    using n sc t sm by (simp only: simp_thms)
qed

text \<open>
  C6 as stated fails on a text of 47 words in 23 sentences of which one has a content
  word: the summarization model cannot be loaded, the extractive fallback runs on more
  than three sentences, and the summary is that one sentence, not three.
\<close>

theorem summarize_top3_counterexample:
  "length (py_split sparse_text) = 47
   \<and> summarizer demo_env = Inl model_missing
   \<and> length (sent_tokenize demo_env sparse_text) = 23
   \<and> top_sentence_indices demo_env (sent_tokenize demo_env sparse_text) 3 = [0]
   \<and> summarize demo_env sparse_text 150 40 = ''Cats chase cat.''
   \<and> \<not> (\<exists>i j k. i < j \<and> j < k \<and> k < 23 \<and>
           summarize demo_env sparse_text 150 40 =
             str_join '' '' [sent_tokenize demo_env sparse_text ! i,
                             sent_tokenize demo_env sparse_text ! j,
                             sent_tokenize demo_env sparse_text ! k])"
proof -
  have w: "length (py_split sparse_text) = 47"
    by code_simp
  have m: "summarizer demo_env = Inl model_missing"
    by (simp add: demo_env_def)
  have s: "sent_tokenize demo_env sparse_text = ''Cats chase cat.'' # replicate 22 ''It is.''"
    by code_simp
  have t: "top_sentence_indices demo_env (sent_tokenize demo_env sparse_text) 3 = [0]"
    by code_simp
  have e: "summarize demo_env sparse_text 150 40 = ''Cats chase cat.''"
    by code_simp
  have l: "length (sent_tokenize demo_env sparse_text) = 23"
    unfolding s by simp
  have six: "6 \<le> length (sent_tokenize demo_env sparse_text ! i)" if "i < 23" for i
    unfolding s using that by (cases i) simp_all
  have neq: "str_join '' '' [sent_tokenize demo_env sparse_text ! i,
                             sent_tokenize demo_env sparse_text ! j,
                             sent_tokenize demo_env sparse_text ! k] \<noteq> ''Cats chase cat.''"
    if "i < j" "j < k" "k < 23" for i j k
  proof -
    from that have "i < 23" "j < 23" by simp_all
    from six [OF this(1)] six [OF this(2)] six [OF that(3)]
    have ge: "20 \<le> length (str_join '' '' [sent_tokenize demo_env sparse_text ! i,
                             sent_tokenize demo_env sparse_text ! j,
                             sent_tokenize demo_env sparse_text ! k])"
      by simp
    show ?thesis
    proof
      assume eq: "str_join '' '' [sent_tokenize demo_env sparse_text ! i,
                             sent_tokenize demo_env sparse_text ! j,
                             sent_tokenize demo_env sparse_text ! k] = ''Cats chase cat.''"
      from arg_cong [OF eq, of length] ge show False
        by simp
    qed
  qed
  have "\<not> (\<exists>i j k. i < j \<and> j < k \<and> k < 23 \<and>
           summarize demo_env sparse_text 150 40 =
             str_join '' '' [sent_tokenize demo_env sparse_text ! i,
                             sent_tokenize demo_env sparse_text ! j,
                             sent_tokenize demo_env sparse_text ! k])"
    unfolding e using neq by metis
  with w m l t e show ?thesis
    by (simp only: simp_thms)
qed

section \<open>Properties of the keyword extraction\<close>

lemma token_loop_events:
  "token_loop env fn M i tokens d =
     foldl (\<lambda>d (l, v). dict_add (fops env) d l v) d
       (List.map_filter
          (\<lambda>token. if token \<notin> set (stop_words env) \<and> lemmatize env token \<in> set fn
                   then Some (lemmatize env token, M i (index_of fn (lemmatize env token)))
                   else None) tokens)"
  by (induction tokens arbitrary: d) (simp_all add: List.map_filter_simps Let_def)

lemma sentence_loop_events:
  "sentence_loop env fn M i sentences d =
     foldl (\<lambda>d (l, v). dict_add (fops env) d l v) d
       (concat (map (\<lambda>(i, sentence). sentence_events env fn M i sentence)
                  (enumerate i sentences)))"
  by (induction sentences arbitrary: i d)
     (simp_all add: Let_def token_loop_events sentence_events_def)

lemma dict_add_keys:
  "map fst (dict_add ops d k v) = (if k \<in> set (map fst d) then map fst d else map fst d @ [k])"
  by (induction d) (force split: if_splits)+

lemma map_of_dict_add:
  "map_of (dict_add ops d k v) =
     (map_of d)(k \<mapsto> (case map_of d k of None \<Rightarrow> v | Some x \<Rightarrow> f_add ops x v))"
  by (induction d) (auto simp: fun_eq_iff)

lemma foldl_dict_add_distinct:
  "distinct (map fst d) \<Longrightarrow>
   distinct (map fst (foldl (\<lambda>d (l, v). dict_add ops d l v) d es))"
  by (induction es arbitrary: d) (auto simp: dict_add_keys)

lemma dict_add_key_set: "fst ` set (dict_add ops d k v) = insert k (fst ` set d)"
  using dict_add_keys [of ops d k v, THEN arg_cong, of set] by (auto split: if_splits)

lemma foldl_dict_add_key_set:
  "fst ` set (foldl (\<lambda>d (l, v). dict_add ops d l v) d es) = fst ` set d \<union> fst ` set es"
proof (induction es arbitrary: d)
  case Nil
  show ?case by simp
next
  case (Cons e es)
  obtain l v where e: "e = (l, v)" by (cases e)
  show ?case
    unfolding e foldl_Cons prod.case Cons.IH dict_add_key_set by simp
qed

lemma map_of_foldl_dict_add:
  "map_of (foldl (\<lambda>d (l, v). dict_add ops d l v) d es) l =
     (case map_of d l of
        None \<Rightarrow> (case map snd (filter (\<lambda>e. fst e = l) es) of
                    [] \<Rightarrow> None | v # vs \<Rightarrow> Some (foldl (f_add ops) v vs))
      | Some x \<Rightarrow> Some (foldl (f_add ops) x (map snd (filter (\<lambda>e. fst e = l) es))))"
  by (induction es arbitrary: d) (auto simp: map_of_dict_add split: option.splits)

lemma keyword_dict:
  fixes env :: "'f analyzer"
  assumes E: "E = keyword_events env fn M sentences"
    and D_def: "D = normalize_by_frequency (fops env) tokens (sentence_loop env fn M 0 sentences [])"
  shows "distinct (map fst D)"
    and "fst ` set D = fst ` set E"
    and "\<forall>(kw, score) \<in> set D. score = keyword_score (fops env) E tokens kw"
proof -
  note E_def = E
  define D0 where "D0 = sentence_loop env fn M 0 sentences []"
  have D0: "D0 = foldl (\<lambda>d (l, v). dict_add (fops env) d l v) [] E"
    unfolding D0_def E_def keyword_events_def by (rule sentence_loop_events)
  have d0: "distinct (map fst D0)"
    unfolding D0 by (rule foldl_dict_add_distinct) simp
  have k0: "fst ` set D0 = fst ` set E"
    unfolding D0 foldl_dict_add_key_set by simp
  have w0: "w = lemma_weight (fops env) E l" if "(l, w) \<in> set D0" for l w
  proof -
    from that d0 have "map_of D0 l = Some w" by simp
    then show ?thesis
      unfolding D0 map_of_foldl_dict_add lemma_weight_def
      by (cases "map snd (filter (\<lambda>e. fst e = l) E)") simp_all
  qed
  have D: "D = map (\<lambda>(term, score).
            if term \<in> set tokens
            then (term, f_mul (fops env) score (f_int (fops env) (int (count_list tokens term))))
            else (term, score)) D0"
    unfolding D_def D0_def normalize_by_frequency_def ..
  have fstD: "map fst D = map fst D0"
    unfolding D by (induction D0) (auto split: prod.splits)
  show "distinct (map fst D)"
    unfolding fstD by (rule d0)
  show "fst ` set D = fst ` set E"
    using fstD k0 by (metis set_map)
  show "\<forall>(kw, score) \<in> set D. score = keyword_score (fops env) E tokens kw"
    unfolding D keyword_score_def using w0 by (auto split: if_splits)
qed

text \<open>
  What the loops compute. When fitting the TF-IDF model raises, \<open>extract_keywords\<close>
  raises the same exception. Otherwise it returns at most \<open>top_n\<close> pairs of distinct
  keywords with their scores, in descending order of score: the scored lemmas are those
  with an event (one event for every distinct token of a sentence whose lemma is a
  feature name), the score of each is its weight times its frequency count, and no
  lemma left out has a higher score than a returned one.
\<close>

lemma extract_keywords_events:
  fixes env :: "('f::linorder) analyzer"
  shows
  "(tfidf_fit env (sent_tokenize env text) = Inl e \<longrightarrow> extract_keywords env text top_n = Inl e)
   \<and> (tfidf_fit env (sent_tokenize env text) = Inr (fn, M) \<longrightarrow>
        (\<exists>ks. extract_keywords env text top_n = Inr ks \<and>
           (let events = keyword_events env fn M (sent_tokenize env text);
                tokens = keyword_tokens env text
            in length ks = min top_n (card (fst ` set events))
               \<and> distinct (map fst ks)
               \<and> sorted (rev (map snd ks))
               \<and> (\<forall>(kw, score) \<in> set ks.
                     kw \<in> fst ` set events
                     \<and> score = keyword_score (fops env) events tokens kw)
               \<and> (\<forall>kw \<in> fst ` set events. kw \<notin> fst ` set ks \<longrightarrow>
                     (\<forall>(k', s') \<in> set ks.
                        keyword_score (fops env) events tokens kw \<le> s')))))"
proof -
  have A: "extract_keywords env text top_n = Inl e"
    if "tfidf_fit env (sent_tokenize env text) = Inl e"
    using that by (simp add: extract_keywords_def and_then_def)
  have B: "\<exists>ks. extract_keywords env text top_n = Inr ks \<and>
           (let events = keyword_events env fn M (sent_tokenize env text);
                tokens = keyword_tokens env text
            in length ks = min top_n (card (fst ` set events))
               \<and> distinct (map fst ks)
               \<and> sorted (rev (map snd ks))
               \<and> (\<forall>(kw, score) \<in> set ks.
                     kw \<in> fst ` set events
                     \<and> score = keyword_score (fops env) events tokens kw)
               \<and> (\<forall>kw \<in> fst ` set events. kw \<notin> fst ` set ks \<longrightarrow>
                     (\<forall>(k', s') \<in> set ks.
                        keyword_score (fops env) events tokens kw \<le> s')))"
    if fit: "tfidf_fit env (sent_tokenize env text) = Inr (fn, M)"
  proof -
  define E where "E = keyword_events env fn M (sent_tokenize env text)"
  define tokens where "tokens = keyword_tokens env text"
  define D where "D = normalize_by_frequency (fops env) tokens
                        (sentence_loop env fn M 0 (sent_tokenize env text) [])"
  define L where "L = py_sorted_reverse snd D"
  define ks where "ks = take top_n L"
  note kd = keyword_dict [OF E_def D_def]
  have res: "extract_keywords env text top_n = Inr ks"
    unfolding extract_keywords_def Let_def fit and_then_def ks_def L_def D_def tokens_def
    by simp
  have setL: "set L = set D" and lenL: "length L = length D" and dL: "distinct L"
    unfolding L_def using kd(1)
    by (simp_all add: py_sorted_reverse_set py_sorted_reverse_length py_sorted_reverse_distinct
          distinct_map)
  have inj: "inj_on fst (set L)"
    using kd(1) unfolding setL by (simp add: distinct_map)
  have dkL: "distinct (map fst L)"
    unfolding distinct_map using dL inj by simp
  have sub: "set ks \<subseteq> set D"
    unfolding ks_def using set_take_subset [of top_n L] setL by simp
  have desc: "sorted (rev (map snd L))"
    unfolding L_def by (rule py_sorted_reverse_descending)
  have 1: "length ks = min top_n (card (fst ` set E))"
  proof -
    have "length D = card (set (map fst D))"
      using distinct_card [OF kd(1)] by simp
    then show ?thesis
      unfolding ks_def using kd(2) by (simp add: lenL min.commute)
  qed
  have 2: "distinct (map fst ks)"
    unfolding ks_def take_map [symmetric] using dkL by (rule distinct_take)
  have 3: "sorted (rev (map snd ks))"
  proof -
    have "rev (map snd ks) = drop (length L - top_n) (rev (map snd L))"
      unfolding ks_def by (simp add: take_map [symmetric] rev_take)
    then show ?thesis
      using desc by (simp add: sorted_wrt_drop)
  qed
  have 4: "\<forall>(kw, score) \<in> set ks.
             kw \<in> fst ` set E \<and> score = keyword_score (fops env) E tokens kw"
    using sub kd(2,3) by force
  have 5: "keyword_score (fops env) E tokens kw \<le> s'"
    if kw: "kw \<in> fst ` set E" and out: "kw \<notin> fst ` set ks" and k': "(k', s') \<in> set ks"
    for kw k' s'
  proof -
    from kw kd(2) obtain s where s: "(kw, s) \<in> set D" by force
    with kd(3) have sv: "s = keyword_score (fops env) E tokens kw" by auto
    from out have "(kw, s) \<notin> set (take top_n L)"
      unfolding ks_def by force
    moreover from s setL have "(kw, s) \<in> set (take top_n L) \<union> set (drop top_n L)"
      unfolding set_append [symmetric] append_take_drop_id by simp
    ultimately have "(kw, s) \<in> set (drop top_n L)" by blast
    from descending_take_drop [OF desc k' [unfolded ks_def] this]
    show ?thesis
      by (simp add: sv)
  qed
  have 5: "\<forall>kw \<in> fst ` set E. kw \<notin> fst ` set ks \<longrightarrow>
             (\<forall>(k', s') \<in> set ks. keyword_score (fops env) E tokens kw \<le> s')"
    using 5 by blast
  from res 1 2 3 4 5 show ?thesis
    unfolding Let_def E_def [symmetric] tokens_def [symmetric]
    by (intro exI [of _ ks] conjI)
  qed
  from A B show ?thesis by blast
qed

text \<open>
  C4. The code does not compute the score of the claim. On "Cats chase cat." the loop
  runs over the distinct tokens of the sentence before they are lemmatized: "cats" and
  "cat" both have the lemma "cat", so the weight of "cat" in that one sentence is added
  twice and the score is twice the sum over the sentences times the count. On "Dogs
  chase birds." the lemmas "dog" and "bird" are looked up among the feature names, which
  are the words "dogs" and "birds" of the text, and get no score at all: only "chase" is
  returned.
\<close>

theorem extract_keywords_double_count:
  "tfidf_fit demo_env (sent_tokenize demo_env demo_text) = Inr (demo_features, demo_matrix)
   \<and> extract_keywords demo_env demo_text 10 = Inr [(''cat'', 2887 / 1250), (''chase'', 2887 / 5000)]
   \<and> claimed_keyword_score demo_env demo_features demo_matrix (sent_tokenize demo_env demo_text)
         (keyword_tokens demo_env demo_text) ''cat'' = 2887 / 2500
   \<and> (2887 / 1250 :: rat) \<noteq> 2887 / 2500
   \<and> keyword_tokens demo_env ''Dogs chase birds.'' = [''dog'', ''chase'', ''bird'']
   \<and> tfidf_fit demo_env (sent_tokenize demo_env ''Dogs chase birds.'')
        = Inr ([''birds'', ''chase'', ''dogs''], demo_matrix)
   \<and> extract_keywords demo_env ''Dogs chase birds.'' 10 = Inr [(''chase'', 2887 / 5000)]"
proof -
  have s: "sent_tokenize demo_env demo_text = [''Cats chase cat.'']"
    by code_simp
  have fit: "tfidf_fit demo_env (sent_tokenize demo_env demo_text) = Inr (demo_features, demo_matrix)"
    unfolding s by (simp add: demo_env_def demo_tfidf_def)
  have k: "extract_keywords demo_env demo_text 10 = Inr [(''cat'', 2887 / 1250), (''chase'', 2887 / 5000)]"
    by code_simp
  have c: "claimed_keyword_score demo_env demo_features demo_matrix (sent_tokenize demo_env demo_text)
         (keyword_tokens demo_env demo_text) ''cat'' = 2887 / 2500"
    by code_simp
  have n: "(2887 / 1250 :: rat) \<noteq> 2887 / 2500"
    by simp
  have t: "keyword_tokens demo_env ''Dogs chase birds.'' = [''dog'', ''chase'', ''bird'']"
    by code_simp
  have s2: "sent_tokenize demo_env ''Dogs chase birds.'' = [''Dogs chase birds.'']"
    by code_simp
  have fit2: "tfidf_fit demo_env (sent_tokenize demo_env ''Dogs chase birds.'')
        = Inr ([''birds'', ''chase'', ''dogs''], demo_matrix)"
    unfolding s2 by (simp add: demo_env_def demo_tfidf_def)
  have k2: "extract_keywords demo_env ''Dogs chase birds.'' 10 = Inr [(''chase'', 2887 / 5000)]"
    by code_simp
  from fit k c n t fit2 k2 show ?thesis by (simp only: simp_thms)
qed

section \<open>Properties of the extractor\<close>

lemma good_error: "msg \<noteq> [] \<Longrightarrow> good (error_result msg)"
  by (simp add: good_def error_result_def no_result_def)

lemma pypdf2_good: "extract_from_pdf_with_pypdf2 w p = Inr r \<Longrightarrow> good r"
  unfolding extract_from_pdf_with_pypdf2_def and_then_def Let_def
  by (auto simp: good_def no_result_def split: sum.splits prod.splits)

lemma pdfminer_good: "extract_from_pdf_with_pdfminer w p = Inr r \<Longrightarrow> good r"
  unfolding extract_from_pdf_with_pdfminer_def and_then_def Let_def
  by (auto simp: good_def no_result_def split: sum.splits)

lemma pdf_good: "extract_from_pdf w p = Inr r \<Longrightarrow> good r"
  unfolding extract_from_pdf_def try_except_def
  by (auto dest: pypdf2_good pdfminer_good split: sum.splits)

lemma docx_good: "extract_from_docx w p = Inr r \<Longrightarrow> good r"
  unfolding extract_from_docx_def and_then_def Let_def
  by (auto simp: good_def no_result_def split: sum.splits)

lemma doc_good: "\<exists>r. extract_from_doc w p = Inr r \<and> good r"
  unfolding extract_from_doc_def try_except_def and_then_def
  by (auto simp: good_def error_result_def no_result_def split: sum.splits)

lemma read_txt_good: "read_txt w p enc b = Inr r \<Longrightarrow> good r"
  unfolding read_txt_def and_then_def Let_def
  by (auto simp: good_def no_result_def split: sum.splits)

lemma txt_good: "extract_from_txt w p = Inr r \<Longrightarrow> good r"
  unfolding extract_from_txt_def try_except_def
  by (auto dest: read_txt_good simp: good_error split: sum.splits if_splits)

lemma textract_good: "\<exists>r. extract_with_textract w p = Inr r \<and> good r"
  unfolding extract_with_textract_def try_except_def and_then_def
  by (auto simp: good_def error_result_def no_result_def split: sum.splits)

lemma handler_cases:
  "map_of supported_extensions ext = Some h \<Longrightarrow>
     h = extract_from_pdf \<or> h = extract_from_docx \<or> h = extract_from_doc \<or> h = extract_from_txt"
  by (auto simp: supported_extensions_def split: if_splits)

lemma extract_document_good:
  fixes w :: "'c world"
  shows "\<exists>r. extract_document w p = Inr r \<and> good r"
proof (cases "path_exists w p")
  case False
  then show ?thesis
    by (simp add: extract_document_def good_error)
next
  case True
  show ?thesis
  proof (cases "map_of (supported_extensions ::
                   (string \<times> ('c world \<Rightarrow> string \<Rightarrow> exn + 'c extraction_result)) list)
                 (file_ext (lower p))")
    case None
    with True show ?thesis
      using textract_good [of w p] by (simp add: extract_document_def)
  next
    case (Some h)
    have h: "h w p = Inr r \<Longrightarrow> good r" for r
      using handler_cases [OF Some] pdf_good docx_good doc_good [of w p] txt_good by auto
    have "\<exists>r. try_except (h w p)
              (\<lambda>e. Inr (error_result (''Extraction failed: '' @ exn_str e))) = Inr r \<and> good r"
      using h by (cases "h w p") (auto simp: try_except_def good_error)
    with True Some show ?thesis
      by (simp add: extract_document_def)
  qed
qed

text \<open>
  C2 (as amended). For every path and every branch of the extractor (PyPDF2 and the
  pdfminer fallback, DOCX, DOC, TXT, the textract fallback for any other extension, and
  a path that does not exist) \<open>extract\<close> returns a result that has exactly one of the
  keys \<open>text\<close> and \<open>error\<close>: either \<open>text\<close> and no \<open>error\<close>, or no \<open>text\<close> and an
  \<open>error\<close> that is a non-empty description. The text may be the empty string.
\<close>

theorem extract_document_result:
  "\<exists>r. extract_document w p = Inr r
       \<and> ((er_text r \<noteq> None \<and> er_error r = None)
            \<or> (er_text r = None \<and> (\<exists>m. er_error r = Some m \<and> m \<noteq> [])))"
  using extract_document_good [of w p] by (simp add: good_def)

text \<open>The invariant at a path that does not exist.\<close>

theorem extract_document_result_witness:
  "extract_document empty_world ''missing.pdf'' = Inr (error_result ''File not found: missing.pdf'')
   \<and> er_text (error_result ''File not found: missing.pdf'' :: rat extraction_result) = None
   \<and> er_error (error_result ''File not found: missing.pdf'' :: rat extraction_result)
        = Some ''File not found: missing.pdf''"
proof -
  have v: "extract_document empty_world ''missing.pdf'' = Inr (error_result ''File not found: missing.pdf'')"
    by code_simp
  from extract_document_result [of empty_world "''missing.pdf''"] v
  have "er_text (error_result ''File not found: missing.pdf'' :: rat extraction_result) = None
        \<and> (\<exists>m. er_error (error_result ''File not found: missing.pdf'' :: rat extraction_result) = Some m
                 \<and> m \<noteq> [])"
    by (auto simp: error_result_def no_result_def)
  with v show ?thesis
    by (simp add: error_result_def no_result_def)
qed

text \<open>
  C2 as stated fails: for an empty text file the result has the empty string as its
  text and no error, so neither field is populated.
\<close>

theorem extract_document_empty_text_counterexample:
  "extract_document one_file_world ''empty.txt'' =
     Inr (no_result\<lparr>er_text := Some [],
                      er_metadata := Some [(''filename'', MStr ''empty.txt''), (''size'', MInt 0)],
                      er_lines := Some [[]]\<rparr>)
   \<and> er_text (no_result\<lparr>er_text := Some [],
                      er_metadata := Some [(''filename'', MStr ''empty.txt''), (''size'', MInt 0)],
                      er_lines := Some [[]]\<rparr> :: rat extraction_result) = Some []
   \<and> er_error (no_result\<lparr>er_text := Some [],
                      er_metadata := Some [(''filename'', MStr ''empty.txt''), (''size'', MInt 0)],
                      er_lines := Some [[]]\<rparr> :: rat extraction_result) = None"
proof -
  have "extract_document one_file_world ''empty.txt'' =
     Inr (no_result\<lparr>er_text := Some [],
                      er_metadata := Some [(''filename'', MStr ''empty.txt''), (''size'', MInt 0)],
                      er_lines := Some [[]]\<rparr>)"
    by code_simp
  then show ?thesis
    by (simp add: no_result_def)
qed

text \<open>
  C1 (as amended). \<open>extract\<close> raises nothing: for every path it returns a result, and
  every failure is a result without text that carries a non-empty \<open>error\<close> description
  (a path that does not exist, a handler that raises, a textract fallback that raises).
  \<open>extract_with_images\<close> has no handler around the image stage: for a PDF or DOCX path
  on which the image stage raises, the exception escapes \<open>extract_with_images\<close>; when
  the image stage returns, the result is the result of \<open>extract\<close> with the key
  \<open>images\<close> added, and for any other extension the image list is empty. \<open>analyze\<close>
  returns the error result for a blank text, and for any other text it returns a result
  whenever the keyword and the entity stage, where enabled, raise nothing; an exception
  of an enabled keyword stage, or of an enabled entity stage after it, escapes
  \<open>analyze\<close>.
\<close>

theorem no_exception_escapes:
  fixes w :: "'c world" and env :: "('f::linorder) analyzer"
  shows
  "(\<exists>r. extract_document w p = Inr r
         \<and> ((er_text r \<noteq> None \<and> er_error r = None)
              \<or> (er_text r = None \<and> (\<exists>m. er_error r = Some m \<and> m \<noteq> []))))
   \<and> (\<not> path_exists w p \<longrightarrow>
         extract_document w p = Inr (error_result (''File not found: '' @ p)))
   \<and> (path_exists w p \<and> map_of supported_extensions (file_ext (lower p)) = Some handler
        \<and> handler w p = Inl x \<longrightarrow>
         extract_document w p = Inr (error_result (''Extraction failed: '' @ exn_str x)))
   \<and> (path_exists w p \<and> map_of supported_extensions (file_ext (lower p)) = Some handler
        \<and> handler w p = Inr res \<longrightarrow> extract_document w p = Inr res)
   \<and> (path_exists w p
        \<and> map_of (supported_extensions ::
                    (string \<times> ('c world \<Rightarrow> string \<Rightarrow> exn + 'c extraction_result)) list)
              (file_ext (lower p)) = None
        \<and> textract_process w p = Inl x \<longrightarrow>
         extract_document w p
         = Inr (error_result (''Unsupported file type extraction failed: '' @ exn_str x)))
   \<and> (file_ext (lower p) = ''.pdf'' \<and> extract_images_from_pdf w p = Inl e \<longrightarrow>
         extract_with_images w p = Inl e)
   \<and> (file_ext (lower p) = ''.docx'' \<and> extract_images_from_docx w p = Inl e \<longrightarrow>
         extract_with_images w p = Inl e)
   \<and> (file_ext (lower p) = ''.pdf'' \<and> extract_images_from_pdf w p = Inr images \<longrightarrow>
         (\<exists>r. extract_document w p = Inr r
              \<and> extract_with_images w p = Inr (r\<lparr>er_images := Some images\<rparr>)))
   \<and> (file_ext (lower p) = ''.docx'' \<and> extract_images_from_docx w p = Inr images \<longrightarrow>
         (\<exists>r. extract_document w p = Inr r
              \<and> extract_with_images w p = Inr (r\<lparr>er_images := Some images\<rparr>)))
   \<and> (file_ext (lower p) \<noteq> ''.pdf'' \<and> file_ext (lower p) \<noteq> ''.docx'' \<longrightarrow>
         (\<exists>r. extract_document w p = Inr r
              \<and> extract_with_images w p = Inr (r\<lparr>er_images := Some []\<rparr>)))
   \<and> (blank doc \<longrightarrow> analyze env doc oa = Inr empty_text_error)
   \<and> (\<not> blank doc
        \<and> (option_enabled oa ''keywords'' \<longrightarrow> (\<exists>k. extract_keywords env doc 10 = Inr k))
        \<and> (option_enabled oa ''entities'' \<longrightarrow> (\<exists>k. extract_entities env doc = Inr k))
        \<longrightarrow> (\<exists>r. analyze env doc oa = Inr r))
   \<and> (\<not> blank doc \<and> option_enabled oa ''keywords'' \<and> extract_keywords env doc 10 = Inl x
        \<longrightarrow> analyze env doc oa = Inl x)
   \<and> (\<not> blank doc
        \<and> (option_enabled oa ''keywords'' \<longrightarrow> (\<exists>k. extract_keywords env doc 10 = Inr k))
        \<and> option_enabled oa ''entities'' \<and> extract_entities env doc = Inl x
        \<longrightarrow> analyze env doc oa = Inl x)"
proof -
  obtain r where r: "extract_document w p = Inr r"
    using extract_document_good [of w p] by blast
  have 1: "\<exists>r. extract_document w p = Inr r
         \<and> ((er_text r \<noteq> None \<and> er_error r = None)
              \<or> (er_text r = None \<and> (\<exists>m. er_error r = Some m \<and> m \<noteq> [])))"
    using extract_document_good [of w p] by (simp add: good_def)
  have e1: "extract_document w p = Inr (error_result (''File not found: '' @ p))"
    if "\<not> path_exists w p"
    using that by (simp add: extract_document_def)
  have e2: "extract_document w p = Inr (error_result (''Extraction failed: '' @ exn_str x))"
    if "path_exists w p \<and> map_of supported_extensions (file_ext (lower p)) = Some handler
        \<and> handler w p = Inl x"
    using that by (simp add: extract_document_def try_except_def)
  have e3: "extract_document w p = Inr res"
    if "path_exists w p \<and> map_of supported_extensions (file_ext (lower p)) = Some handler
        \<and> handler w p = Inr res"
    using that by (simp add: extract_document_def try_except_def)
  have e4: "extract_document w p
         = Inr (error_result (''Unsupported file type extraction failed: '' @ exn_str x))"
    if "path_exists w p
        \<and> map_of (supported_extensions ::
                    (string \<times> ('c world \<Rightarrow> string \<Rightarrow> exn + 'c extraction_result)) list)
              (file_ext (lower p)) = None
        \<and> textract_process w p = Inl x"
    using that
    by (simp add: extract_document_def extract_with_textract_def try_except_def and_then_def)
  have 2: "extract_with_images w p = Inl e"
    if "file_ext (lower p) = ''.pdf'' \<and> extract_images_from_pdf w p = Inl e"
    using that r by (simp add: extract_with_images_def and_then_def)
  have 3: "extract_with_images w p = Inl e"
    if "file_ext (lower p) = ''.docx'' \<and> extract_images_from_docx w p = Inl e"
    using that r by (simp add: extract_with_images_def and_then_def)
  have 4: "\<exists>r. extract_document w p = Inr r
              \<and> extract_with_images w p = Inr (r\<lparr>er_images := Some images\<rparr>)"
    if "file_ext (lower p) = ''.pdf'' \<and> extract_images_from_pdf w p = Inr images"
    using that r by (simp add: extract_with_images_def and_then_def)
  have 5: "\<exists>r. extract_document w p = Inr r
              \<and> extract_with_images w p = Inr (r\<lparr>er_images := Some images\<rparr>)"
    if "file_ext (lower p) = ''.docx'' \<and> extract_images_from_docx w p = Inr images"
    using that r by (simp add: extract_with_images_def and_then_def)
  have 6: "\<exists>r. extract_document w p = Inr r
              \<and> extract_with_images w p = Inr (r\<lparr>er_images := Some []\<rparr>)"
    if "file_ext (lower p) \<noteq> ''.pdf'' \<and> file_ext (lower p) \<noteq> ''.docx''"
    using that r by (simp add: extract_with_images_def and_then_def)
  have 7: "analyze env doc oa = Inr empty_text_error" if "blank doc"
    using that by (simp add: analyze_blank empty_text_error_def)
  have 8: "\<exists>r. analyze env doc oa = Inr r"
    if "\<not> blank doc
        \<and> (option_enabled oa ''keywords'' \<longrightarrow> (\<exists>k. extract_keywords env doc 10 = Inr k))
        \<and> (option_enabled oa ''entities'' \<longrightarrow> (\<exists>k. extract_entities env doc = Inr k))"
    using that analyze_total by blast
  have 9: "analyze env doc oa = Inl x"
    if "\<not> blank doc \<and> option_enabled oa ''keywords'' \<and> extract_keywords env doc 10 = Inl x"
    using that analyze_raises(1) by blast
  have 10: "analyze env doc oa = Inl x"
    if "\<not> blank doc
        \<and> (option_enabled oa ''keywords'' \<longrightarrow> (\<exists>k. extract_keywords env doc 10 = Inr k))
        \<and> option_enabled oa ''entities'' \<and> extract_entities env doc = Inl x"
    using that analyze_raises(2) by blast
  from 1 e1 e2 e3 e4 2 3 4 5 6 7 8 9 10 show ?thesis
    by (intro conjI impI)
qed

text \<open>
  At a path that does not exist the exception of the image stage escapes; at a text
  file the image list is empty.
\<close>

theorem no_exception_escapes_witness:
  "file_ext (lower ''missing.pdf'') = ''.pdf''
   \<and> extract_images_from_pdf empty_world ''missing.pdf'' = Inl (file_missing ''missing.pdf'')
   \<and> extract_with_images empty_world ''missing.pdf'' = Inl (file_missing ''missing.pdf'')
   \<and> file_ext (lower ''empty.txt'') \<noteq> ''.pdf'' \<and> file_ext (lower ''empty.txt'') \<noteq> ''.docx''
   \<and> er_images (case extract_with_images one_file_world ''empty.txt'' of Inr r \<Rightarrow> r) = Some []"
proof -
  have e: "file_ext (lower ''missing.pdf'') = ''.pdf''"
    by code_simp
  have i: "extract_images_from_pdf empty_world ''missing.pdf'' = Inl (file_missing ''missing.pdf'')"
    by (simp add: extract_images_from_pdf_def empty_world_def and_then_def)
  have t: "file_ext (lower ''empty.txt'') \<noteq> ''.pdf''" "file_ext (lower ''empty.txt'') \<noteq> ''.docx''"
    by code_simp+
  note n = no_exception_escapes [where 'f = rat]
  note a = n [where w = empty_world and p = "''missing.pdf''" and e = "file_missing ''missing.pdf''",
              THEN conjunct2, THEN conjunct2, THEN conjunct2, THEN conjunct2, THEN conjunct2, THEN conjunct1, THEN mp]
  from e i have 1: "extract_with_images empty_world ''missing.pdf'' = Inl (file_missing ''missing.pdf'')"
    by (intro a conjI)
  note b = n [where w = one_file_world and p = "''empty.txt''",
              THEN conjunct2, THEN conjunct2, THEN conjunct2, THEN conjunct2, THEN conjunct2, THEN conjunct2, THEN conjunct2, THEN conjunct2, THEN conjunct2, THEN conjunct1, THEN mp]
  from t have "\<exists>r. extract_document one_file_world ''empty.txt'' = Inr r
              \<and> extract_with_images one_file_world ''empty.txt'' = Inr (r\<lparr>er_images := Some []\<rparr>)"
    by (intro b conjI)
  then obtain r where "extract_with_images one_file_world ''empty.txt'' = Inr (r\<lparr>er_images := Some []\<rparr>)"
    by blast
  then have 2: "er_images (case extract_with_images one_file_world ''empty.txt'' of Inr r \<Rightarrow> r) = Some []"
    by simp
  from e i t 1 2 show ?thesis by (simp only: simp_thms)
qed

text \<open>
  C1 as stated fails: for a PDF whose text is read and whose image cannot be passed
  through OCR, and for a PDF path that does not exist, \<open>extract\<close> returns a result and
  \<open>extract_with_images\<close> raises; for a text of stop words only, \<open>analyze\<close> raises the
  error of the TF-IDF fit.
\<close>

theorem exception_escapes_counterexample:
  "extract_document scan_world ''scan.pdf''
        = Inr (no_result\<lparr>er_text := Some ''Hello'', er_metadata := Some [],
                         er_pages := Some [''Hello''], er_page_count := Some 1\<rparr>)
   \<and> extract_with_images scan_world ''scan.pdf''
        = Inl (Raised ''TesseractNotFoundError'' ''tesseract is not installed'')
   \<and> extract_document empty_world ''missing.pdf''
        = Inr (error_result ''File not found: missing.pdf'')
   \<and> extract_with_images empty_world ''missing.pdf''
        = Inl (Raised ''FileNotFoundError'' ''no such file: missing.pdf'')
   \<and> analyze demo_env ''the'' None
        = Inl (Raised ''ValueError''
                 ''empty vocabulary; perhaps the documents only contain stop words'')"
proof -
  have 1: "extract_document scan_world ''scan.pdf''
        = Inr (no_result\<lparr>er_text := Some ''Hello'', er_metadata := Some [],
                         er_pages := Some [''Hello''], er_page_count := Some 1\<rparr>)"
    by code_simp
  have 2: "extract_with_images scan_world ''scan.pdf''
        = Inl (Raised ''TesseractNotFoundError'' ''tesseract is not installed'')"
    by code_simp
  have 3: "extract_document empty_world ''missing.pdf''
        = Inr (error_result ''File not found: missing.pdf'')"
    by code_simp
  have 4: "extract_with_images empty_world ''missing.pdf''
        = Inl (Raised ''FileNotFoundError'' ''no such file: missing.pdf'')"
    by code_simp
  have 5: "analyze demo_env ''the'' None
        = Inl (Raised ''ValueError''
                 ''empty vocabulary; perhaps the documents only contain stop words'')"
    by code_simp
  from 1 2 3 4 5 show ?thesis by (simp only: simp_thms)
qed

end
